theory Spec2Isabelle
  imports Main
begin

section \<open>Go library functions used by main.go\<close>

text \<open>
  The program calls a few functions of the Go standard library (packages strings,
  path/filepath, fmt and net/url).  They are modelled here on byte strings (\<open>string\<close>
  is a list of 8-bit characters, as a Go string is a sequence of bytes), for the Unix
  path separator.
\<close>

subsection \<open>strings\<close>

definition strings_HasPrefix :: "string \<Rightarrow> string \<Rightarrow> bool" where
  "strings_HasPrefix s prefix = (take (length prefix) s = prefix)"

text \<open>\<open>strings.Cut\<close> for a separator of one byte: the text before the first
  occurrence, the text after it, and whether the separator was found.\<close>

definition strings_Cut :: "string \<Rightarrow> char \<Rightarrow> string \<times> string \<times> bool" where
  "strings_Cut s sep =
     (if sep \<in> set s
      then (takeWhile (\<lambda>c. c \<noteq> sep) s, tl (dropWhile (\<lambda>c. c \<noteq> sep) s), True)
      else (s, [], False))"

text \<open>\<open>strings.Split\<close> for a separator of one byte.\<close>

fun strings_Split :: "string \<Rightarrow> char \<Rightarrow> string list" where
  "strings_Split [] sep = [[]]"
| "strings_Split (c # cs) sep =
     (if c = sep then [] # strings_Split cs sep
      else (case strings_Split cs sep of
              [] \<Rightarrow> [[c]]
            | w # ws \<Rightarrow> (c # w) # ws))"

text \<open>\<open>strings.Index\<close>: the position of the first occurrence of \<open>sub\<close>.\<close>

fun strings_Index_from :: "nat \<Rightarrow> string \<Rightarrow> string \<Rightarrow> nat option" where
  "strings_Index_from i [] sub = (if sub = [] then Some i else None)"
| "strings_Index_from i (c # cs) sub =
     (if strings_HasPrefix (c # cs) sub then Some i
      else strings_Index_from (Suc i) cs sub)"

definition strings_Index :: "string \<Rightarrow> string \<Rightarrow> nat option" where
  "strings_Index s sub = strings_Index_from 0 s sub"

text \<open>\<open>strings.LastIndex\<close> for a separator of one byte.\<close>

definition strings_LastIndex :: "string \<Rightarrow> char \<Rightarrow> nat option" where
  "strings_LastIndex s sep =
     (if sep \<in> set s
      then Some (length s - Suc (length (takeWhile (\<lambda>c. c \<noteq> sep) (rev s))))
      else None)"

definition upper_letters :: string where
  "upper_letters = ''ABCDEFGHIJKLMNOPQRSTUVWXYZ''"

definition lower_letters :: string where
  "lower_letters = ''abcdefghijklmnopqrstuvwxyz''"

definition decimal_digits :: string where
  "decimal_digits = ''0123456789''"

fun assoc_char :: "(char \<times> char) list \<Rightarrow> char \<Rightarrow> char" where
  "assoc_char [] c = c"
| "assoc_char ((k, v) # kvs) c = (if c = k then v else assoc_char kvs c)"

text \<open>\<open>strings.ToLower\<close> on the ASCII letters; every other byte is kept.  (Go also
  lowers non-ASCII letters; none of them lowers to a letter of the three extensions the
  program compares with.)\<close>

definition strings_ToLower :: "string \<Rightarrow> string" where
  "strings_ToLower s = map (assoc_char (zip upper_letters lower_letters)) s"

subsection \<open>fmt\<close>

definition digit_char :: "nat \<Rightarrow> char" where
  "digit_char d = decimal_digits ! d"

fun nat_decimal :: "nat \<Rightarrow> string" where
  "nat_decimal n =
     (if n < 10 then [digit_char n]
      else nat_decimal (n div 10) @ [digit_char (n mod 10)])"

declare nat_decimal.simps [simp del]

text \<open>The verb \<open>%d\<close> of \<open>fmt.Sprintf\<close>.\<close>

definition fmt_d :: "int \<Rightarrow> string" where
  "fmt_d i = (if i < 0 then CHR ''-'' # nat_decimal (nat (- i)) else nat_decimal (nat i))"

subsection \<open>path/filepath\<close>

definition strip_trailing_slashes :: "string \<Rightarrow> string" where
  "strip_trailing_slashes p = rev (dropWhile (\<lambda>c. c = CHR ''/'') (rev p))"

definition last_element :: "string \<Rightarrow> string" where
  "last_element p = rev (takeWhile (\<lambda>c. c \<noteq> CHR ''/'') (rev p))"

definition filepath_Base :: "string \<Rightarrow> string" where
  "filepath_Base path =
     (if path = [] then ''.''
      else let e = last_element (strip_trailing_slashes path)
           in if e = [] then ''/'' else e)"

definition filepath_Ext :: "string \<Rightarrow> string" where
  "filepath_Ext path =
     (let e = last_element path
      in if CHR ''.'' \<in> set e
         then CHR ''.'' # rev (takeWhile (\<lambda>c. c \<noteq> CHR ''.'') (rev e))
         else [])"

text \<open>\<open>filepath.Clean\<close>: the elements of the path are processed from left to right;
  \<open>out\<close> is the list of the elements kept so far, the last one first.\<close>

fun clean_elements :: "bool \<Rightarrow> string list \<Rightarrow> string list \<Rightarrow> string list" where
  "clean_elements rooted out [] = rev out"
| "clean_elements rooted out (e # es) =
     (if e = [] \<or> e = ''.'' then clean_elements rooted out es
      else if e = ''..'' then
        (case out of
           [] \<Rightarrow> clean_elements rooted (if rooted then [] else [''..'']) es
         | x # xs \<Rightarrow>
             if x = ''..'' then clean_elements rooted (''..'' # out) es
             else clean_elements rooted xs es)
      else clean_elements rooted (e # out) es)"

fun join_slash :: "string list \<Rightarrow> string" where
  "join_slash [] = []"
| "join_slash [e] = e"
| "join_slash (e # es) = e @ ''/'' @ join_slash es"

definition filepath_Clean :: "string \<Rightarrow> string" where
  "filepath_Clean path =
     (if path = [] then ''.''
      else let rooted = (hd path = CHR ''/'');
               out = (if rooted then ''/'' else []) @
                     join_slash (clean_elements rooted [] (strings_Split path CHR ''/''))
           in if out = [] then ''.'' else out)"

definition filepath_Join :: "string list \<Rightarrow> string" where
  "filepath_Join elem =
     (case dropWhile (\<lambda>e. e = []) elem of
        [] \<Rightarrow> []
      | es \<Rightarrow> filepath_Clean (join_slash es))"

subsection \<open>net/url\<close>

text \<open>
  \<open>url.Parse\<close>, \<open>URL.Query\<close> and \<open>Values.Get\<close>, after the sources of package net/url
  (Go 1.21).  Of the parsed URL only the fields below are kept; the user information is
  validated as \<open>url.Parse\<close> does, and not stored.  The program never prints an error of
  \<open>url.Parse\<close>, so the errors are a datatype, not their messages.
\<close>

datatype url_error =
    InvalidControlCharacter
  | MissingProtocolScheme
  | FirstPathSegmentColon
  | MissingBracketInHost
  | InvalidPort string
  | InvalidUserinfo
  | EscapeError string
  | InvalidHostError string

datatype encoding =
  encodePath | encodeUserPassword | encodeQueryComponent | encodeFragment | encodeHost | encodeZone

record url =
  Scheme :: string
  Opaque :: string
  Host :: string
  Path :: string
  RawQuery :: string
  Fragment :: string

definition empty_url :: url where
  "empty_url = \<lparr>Scheme = [], Opaque = [], Host = [], Path = [], RawQuery = [], Fragment = []\<rparr>"

definition stringContainsCTLByte :: "string \<Rightarrow> bool" where
  "stringContainsCTLByte s = (\<exists>c \<in> set s. (of_char c :: nat) < 32 \<or> (of_char c :: nat) = 127)"

definition ishex :: "char \<Rightarrow> bool" where
  "ishex c = (c \<in> set ''0123456789abcdefABCDEF'')"

definition unhex :: "char \<Rightarrow> nat" where
  "unhex c =
     (case strings_Index ''0123456789abcdef'' [c] of
        Some i \<Rightarrow> i
      | None \<Rightarrow> (case strings_Index ''ABCDEF'' [c] of Some i \<Rightarrow> i + 10 | None \<Rightarrow> 0))"

definition isalnum :: "char \<Rightarrow> bool" where
  "isalnum c = (c \<in> set lower_letters \<or> c \<in> set upper_letters \<or> c \<in> set decimal_digits)"

text \<open>\<open>shouldEscape c encodeHost\<close>: the bytes that may not stand in a host name.\<close>

definition shouldEscape_Host :: "char \<Rightarrow> bool" where
  "shouldEscape_Host c =
     (\<not> isalnum c \<and> c \<notin> set (''!$&()*+,;=:[]<>'' @ [CHR 0x27, CHR 0x22]) \<and> c \<notin> set ''-_.~'')"

definition plain_byte :: "encoding \<Rightarrow> char \<Rightarrow> url_error + char" where
  "plain_byte mode c =
     (if c = CHR ''+'' then Inr (if mode = encodeQueryComponent then CHR '' '' else c)
      else if (mode = encodeHost \<or> mode = encodeZone) \<and> (of_char c :: nat) < 128
                \<and> shouldEscape_Host c
      then Inl (InvalidHostError [c])
      else Inr c)"

definition escaped_byte :: "encoding \<Rightarrow> char \<Rightarrow> char \<Rightarrow> url_error + char" where
  "escaped_byte mode a b =
     (let v = char_of (unhex a * 16 + unhex b);
          esc = [CHR ''%'', a, b]
      in if \<not> ishex a \<or> \<not> ishex b then Inl (EscapeError esc)
         else if mode = encodeHost \<and> unhex a < 8 \<and> esc \<noteq> ''%25'' then Inl (EscapeError esc)
         else if mode = encodeZone \<and> esc \<noteq> ''%25'' \<and> v \<noteq> CHR '' '' \<and> shouldEscape_Host v
         then Inl (EscapeError esc)
         else Inr v)"

definition cons_result :: "url_error + char \<Rightarrow> url_error + string \<Rightarrow> url_error + string" where
  "cons_result r rs =
     (case r of
        Inl e \<Rightarrow> Inl e
      | Inr c \<Rightarrow> (case rs of Inl e \<Rightarrow> Inl e | Inr cs \<Rightarrow> Inr (c # cs)))"

fun unescape :: "string \<Rightarrow> encoding \<Rightarrow> url_error + string" where
  "unescape [] mode = Inr []"
| "unescape [c] mode =
     (if c = CHR ''%'' then Inl (EscapeError [c]) else cons_result (plain_byte mode c) (Inr []))"
| "unescape [c, a] mode =
     (if c = CHR ''%'' then Inl (EscapeError [c, a])
      else cons_result (plain_byte mode c) (unescape [a] mode))"
| "unescape (c # a # b # rest) mode =
     (if c = CHR ''%'' then cons_result (escaped_byte mode a b) (unescape rest mode)
      else cons_result (plain_byte mode c) (unescape (a # b # rest) mode))"

fun getScheme_from :: "string \<Rightarrow> string \<Rightarrow> string \<Rightarrow> url_error + string \<times> string" where
  "getScheme_from rawURL seen [] = Inr ([], rawURL)"
| "getScheme_from rawURL seen (c # cs) =
     (if c \<in> set lower_letters \<or> c \<in> set upper_letters
      then getScheme_from rawURL (seen @ [c]) cs
      else if c \<in> set decimal_digits \<or> c \<in> set ''+-.''
      then (if seen = [] then Inr ([], rawURL) else getScheme_from rawURL (seen @ [c]) cs)
      else if c = CHR '':''
      then (if seen = [] then Inl MissingProtocolScheme else Inr (seen, cs))
      else Inr ([], rawURL))"

definition getScheme :: "string \<Rightarrow> url_error + string \<times> string" where
  "getScheme rawURL = getScheme_from rawURL [] rawURL"

definition validOptionalPort :: "string \<Rightarrow> bool" where
  "validOptionalPort port =
     (case port of
        [] \<Rightarrow> True
      | c # ds \<Rightarrow> c = CHR '':'' \<and> (\<forall>d \<in> set ds. d \<in> set decimal_digits))"

definition validUserinfo :: "string \<Rightarrow> bool" where
  "validUserinfo s =
     (\<forall>r \<in> set s. isalnum r \<or> r \<in> set (''-._:~!$&()*+,;=%@'' @ [CHR 0x27]))"

definition parseHost :: "string \<Rightarrow> url_error + string" where
  "parseHost host =
     (if strings_HasPrefix host ''['' then
        (case strings_LastIndex host CHR '']'' of
           None \<Rightarrow> Inl MissingBracketInHost
         | Some i \<Rightarrow>
             if \<not> validOptionalPort (drop (Suc i) host) then Inl (InvalidPort (drop (Suc i) host))
             else (case strings_Index (take i host) ''%25'' of
                     None \<Rightarrow> unescape host encodeHost
                   | Some zone \<Rightarrow>
                       (case unescape (take zone host) encodeHost of
                          Inl e \<Rightarrow> Inl e
                        | Inr host1 \<Rightarrow>
                           (case unescape (take (i - zone) (drop zone host)) encodeZone of
                              Inl e \<Rightarrow> Inl e
                            | Inr host2 \<Rightarrow>
                               (case unescape (drop i host) encodeHost of
                                  Inl e \<Rightarrow> Inl e
                                | Inr host3 \<Rightarrow> Inr (host1 @ host2 @ host3))))))
      else
        (case strings_LastIndex host CHR '':'' of
           None \<Rightarrow> unescape host encodeHost
         | Some i \<Rightarrow>
             if \<not> validOptionalPort (drop i host) then Inl (InvalidPort (drop i host))
             else unescape host encodeHost))"

definition parseAuthority :: "string \<Rightarrow> url_error + string" where
  "parseAuthority authority =
     (case strings_LastIndex authority CHR ''@'' of
        None \<Rightarrow> parseHost authority
      | Some i \<Rightarrow>
         (case parseHost (drop (Suc i) authority) of
            Inl e \<Rightarrow> Inl e
          | Inr host \<Rightarrow>
              let userinfo = take i authority
              in if \<not> validUserinfo userinfo then Inl InvalidUserinfo
                 else if CHR '':'' \<notin> set userinfo then
                   (case unescape userinfo encodeUserPassword of
                      Inl e \<Rightarrow> Inl e
                    | Inr _ \<Rightarrow> Inr host)
                 else
                   (case strings_Cut userinfo CHR '':'' of
                      (username, password, _) \<Rightarrow>
                        (case unescape username encodeUserPassword of
                           Inl e \<Rightarrow> Inl e
                         | Inr _ \<Rightarrow>
                            (case unescape password encodeUserPassword of
                               Inl e \<Rightarrow> Inl e
                             | Inr _ \<Rightarrow> Inr host)))))"

definition setPath :: "url \<Rightarrow> string \<Rightarrow> url_error + url" where
  "setPath u p = (case unescape p encodePath of Inl e \<Rightarrow> Inl e | Inr path \<Rightarrow> Inr (u\<lparr>Path := path\<rparr>))"

definition setFragment :: "url \<Rightarrow> string \<Rightarrow> url_error + url" where
  "setFragment u f =
     (case unescape f encodeFragment of Inl e \<Rightarrow> Inl e | Inr frag \<Rightarrow> Inr (u\<lparr>Fragment := frag\<rparr>))"

text \<open>The unexported \<open>parse\<close> of net/url with \<open>viaRequest = false\<close>, as \<open>url.Parse\<close> calls it.\<close>

definition url_parse :: "string \<Rightarrow> url_error + url" where
  "url_parse rawURL =
     (if stringContainsCTLByte rawURL then Inl InvalidControlCharacter
      else if rawURL = ''*'' then Inr (empty_url\<lparr>Path := ''*''\<rparr>)
      else
        (case getScheme rawURL of
           Inl e \<Rightarrow> Inl e
         | Inr (scheme0, rest0) \<Rightarrow>
            let scheme = strings_ToLower scheme0;
                split = (if rest0 \<noteq> [] \<and> last rest0 = CHR ''?'' \<and> count_list rest0 CHR ''?'' = 1
                         then (butlast rest0, [])
                         else (fst (strings_Cut rest0 CHR ''?''),
                               fst (snd (strings_Cut rest0 CHR ''?''))));
                rest = fst split;
                u = empty_url\<lparr>Scheme := scheme, RawQuery := snd split\<rparr>
            in if \<not> strings_HasPrefix rest ''/'' \<and> scheme \<noteq> [] then Inr (u\<lparr>Opaque := rest\<rparr>)
               else if \<not> strings_HasPrefix rest ''/''
                         \<and> CHR '':'' \<in> set (fst (strings_Cut rest CHR ''/''))
               then Inl FirstPathSegmentColon
               else if (scheme \<noteq> [] \<or> \<not> strings_HasPrefix rest ''///'')
                         \<and> strings_HasPrefix rest ''//''
               then
                 (let authority0 = drop 2 rest;
                      authority = fst (strings_Cut authority0 CHR ''/'');
                      rest1 = drop (length authority) authority0
                  in case parseAuthority authority of
                       Inl e \<Rightarrow> Inl e
                     | Inr host \<Rightarrow> setPath (u\<lparr>Host := host\<rparr>) rest1)
               else setPath u rest))"

definition url_Parse :: "string \<Rightarrow> url_error + url" where
  "url_Parse rawURL =
     (case strings_Cut rawURL CHR ''#'' of
        (u, frag, _) \<Rightarrow>
          (case url_parse u of
             Inl e \<Rightarrow> Inl e
           | Inr parsed \<Rightarrow> if frag = [] then Inr parsed else setFragment parsed frag))"

text \<open>\<open>URL.Query\<close>: the pairs of the query string in their order; a pair with a
  semicolon or with an invalid escape is dropped, as \<open>url.ParseQuery\<close> does.\<close>

definition query_pair :: "string \<Rightarrow> (string \<times> string) option" where
  "query_pair kv =
     (if CHR '';'' \<in> set kv \<or> kv = [] then None
      else
        (case strings_Cut kv CHR ''='' of
           (k, v, _) \<Rightarrow>
             (case unescape k encodeQueryComponent of
                Inl _ \<Rightarrow> None
              | Inr key \<Rightarrow>
                 (case unescape v encodeQueryComponent of
                    Inl _ \<Rightarrow> None
                  | Inr val \<Rightarrow> Some (key, val)))))"

definition url_Query :: "url \<Rightarrow> (string \<times> string) list" where
  "url_Query u = List.map_filter query_pair (strings_Split (RawQuery u) CHR ''&'')"

text \<open>\<open>Values.Get\<close>: the first value stored under the key, the empty string if none.\<close>

definition Values_Get :: "(string \<times> string) list \<Rightarrow> string \<Rightarrow> string" where
  "Values_Get v key = (case map_of v key of None \<Rightarrow> [] | Some val \<Rightarrow> val)"

section \<open>The data of main.go\<close>

text \<open>
  A Go \<open>error\<close> is modelled by its message, the text that the verb \<open>%v\<close> prints.
  \<open>[]byte\<close> is a \<open>string\<close>.  The field \<open>Mutex\<close> of a task has no counterpart in the
  record: a handler holds the lock from its first to its last access to the task, so a
  handler is one atomic step on the task, and the lock operations are kept as effects.
\<close>

type_synonym go_error = string

record Config =
  AllowedExtensions :: "(string \<times> bool) list"
  MaxFilesPerTask :: int
  MaxActiveTasks :: int
  TempFolder :: string
  ServerPort :: string

definition Const_MaxActiveTasks :: int where
  "Const_MaxActiveTasks = 3"

definition Const_MaxFilesPerTask :: int where
  "Const_MaxFilesPerTask = 3"

definition TaskIDPathParts :: nat where
  "TaskIDPathParts = 3"

definition config :: Config where
  "config =
     \<lparr>AllowedExtensions = [(''.pdf'', True), (''.jpeg'', True), (''.jpg'', True)],
      MaxFilesPerTask = Const_MaxFilesPerTask,
      MaxActiveTasks = Const_MaxActiveTasks,
      TempFolder = ''temp_archives'',
      ServerPort = ''8080''\<rparr>"

record File =
  URL :: string
  Filename :: string
  Data :: string

record Task =
  ID :: string
  Status :: string
  Files :: "File list"
  Errors :: "string list"
  ZipPath :: string
  CreatedAt :: int

text \<open>
  What a handler reads of an \<open>http.Request\<close>: the method, \<open>r.URL.Path\<close>, the value of
  \<open>r.Header.Get("Content-Type")\<close>, and the body.  Reading the body and decoding its JSON
  are done by the library (\<open>io.ReadAll\<close>, \<open>json.Unmarshal\<close>); the request carries their
  outcome: a read error, a decoding error, or the value decoded for the key \<open>url\<close>.
\<close>

datatype body_outcome =
    ReadAllFailed go_error
  | UnmarshalFailed go_error
  | Unmarshalled string

record Request =
  Method :: string
  URL_Path :: string
  Content_Type :: string
  Body :: body_outcome

text \<open>
  What \<open>http.Get\<close> and reading the response do for one URL is decided by the network:
  the request fails, or a response arrives with a status code and a body whose reading
  fails or gives the bytes.
\<close>

datatype http_outcome =
    GetFailed go_error
  | GetResponse int "go_error + string"

datatype json_value = JString string | JInt int | JStrings "string list"

text \<open>The three ways in which the handlers answer: \<open>http.Error\<close>, a status line
  followed by \<open>fmt.Fprintf\<close>, and \<open>sendJSONResponse\<close>.\<close>

datatype response =
    http_Error string nat
  | Fprintf_response nat string
  | JSON_response nat "(string \<times> json_value) list"

datatype effect =
    MutexLock
  | MutexUnlock
  | ReadBody
  | HttpGet string
  | GoCreateZipArchive

definition StatusBadRequest :: nat where "StatusBadRequest = 400"
definition StatusNotFound :: nat where "StatusNotFound = 404"
definition StatusMethodNotAllowed :: nat where "StatusMethodNotAllowed = 405"
definition StatusServiceUnavailable :: nat where "StatusServiceUnavailable = 503"
definition StatusOK :: nat where "StatusOK = 200"
definition StatusCreated :: nat where "StatusCreated = 201"
definition StatusAccepted :: nat where "StatusAccepted = 202"

section \<open>The functions of main.go\<close>

definition generateTaskID :: "int \<Rightarrow> string" where
  \<comment> \<open>the argument is \<open>time.Now().UnixNano()\<close>\<close>
  "generateTaskID now = fmt_d now"

definition isValidURL :: "string \<Rightarrow> bool" where
  "isValidURL url = (strings_HasPrefix url ''http://'' \<or> strings_HasPrefix url ''https://'')"

datatype parseURL_error = ParseError url_error | NoFilenameInURL

definition parseURL :: "string \<Rightarrow> parseURL_error + string" where
  "parseURL rawURL =
     (case url_Parse rawURL of
        Inl err \<Rightarrow> Inl (ParseError err)
      | Inr u \<Rightarrow>
          let filename = Values_Get (url_Query u) ''filename''
          in if filename \<noteq> [] then Inr filename
             else if Path u = [] then Inl NoFilenameInURL
             else Inr (filepath_Base (Path u)))"

definition hasAllowedExtension :: "string \<Rightarrow> bool" where
  "hasAllowedExtension rawURL =
     (case parseURL rawURL of
        Inl err \<Rightarrow> False
      | Inr filename \<Rightarrow>
          let ext = strings_ToLower (filepath_Ext filename)
          in if ext = ''.jpeg'' \<or> ext = ''.jpg'' \<or> ext = ''.pdf'' then True else False)"

definition downloadFile :: "string \<Rightarrow> http_outcome \<Rightarrow> go_error + string \<times> string" where
  "downloadFile url net =
     (case net of
        GetFailed err \<Rightarrow> Inl err
      | GetResponse code body \<Rightarrow>
          if code \<noteq> 200 then Inl (''HTTP status '' @ fmt_d code)
          else
            (case body of
               Inl err \<Rightarrow> Inl err
             | Inr data \<Rightarrow>
                 let filename = filepath_Base url;
                     filename = (if filename = ''.'' \<or> filename = ''/''
                                 then ''file'' @ filepath_Ext url else filename)
                 in Inr (data, filename)))"

text \<open>\<open>decodeJSONBody\<close> gives the decoded field \<open>URL\<close> of the request structure, and
  the effects it had: the body is read only when the content type is accepted.\<close>

definition decodeJSONBody :: "Request \<Rightarrow> effect list \<times> (go_error + string)" where
  "decodeJSONBody r =
     (if Content_Type r \<noteq> ''application/json''
      then ([], Inl ''content type is not application/json'')
      else
        (case Body r of
           ReadAllFailed err \<Rightarrow> ([ReadBody], Inl err)
         | UnmarshalFailed err \<Rightarrow> ([ReadBody], Inl err)
         | Unmarshalled u \<Rightarrow> ([ReadBody], Inr u)))"

subsection \<open>handleTaskFiles, the branch of \<open>http.MethodPost\<close>\<close>

definition quota_reached_body :: string where
  \<open>quota_reached_body = ''{"error": "Maximum files per task reached"}''\<close>

definition invalid_body_body :: string where
  \<open>invalid_body_body = ''{"error": "Invalid request body"}''\<close>

definition invalid_url_body :: string where
  \<open>invalid_url_body = ''{"error": "Invalid URL"}''\<close>

definition not_allowed_body :: string where
  \<open>not_allowed_body = ''{"error": "File type not allowed"}''\<close>

definition download_failed_body :: "Task \<Rightarrow> string" where
  \<open>download_failed_body task =
     ''{"task_id": "'' @ ID task @ ''", "status": "'' @ Status task @
     ''", "error": "Failed to download file, please, try other service"}''\<close>

definition accepted_body :: "Task \<Rightarrow> string" where
  \<open>accepted_body task =
     ''{"task_id": "'' @ ID task @ ''", "status": "'' @ Status task @
     ''", "files_count": '' @ fmt_d (int (length (Files task))) @ ''}''\<close>

definition download_diagnostic :: "string \<Rightarrow> go_error \<Rightarrow> string" where
  "download_diagnostic url err = ''Failed to download '' @ url @ '': '' @ err"

text \<open>
  The branch runs between \<open>task.Mutex.Lock()\<close> and the deferred
  \<open>task.Mutex.Unlock()\<close>.  It takes the task as it is when the lock is obtained and what
  the network does for the URL, and gives the task as it is when the lock is released,
  the answer, and the effects in the order of the statements.
\<close>

definition handleTaskFiles_POST ::
  "Config \<Rightarrow> Request \<Rightarrow> http_outcome \<Rightarrow> Task \<Rightarrow> Task \<times> response \<times> effect list" where
  "handleTaskFiles_POST cfg r net task =
     (if int (length (Files task)) \<ge> MaxFilesPerTask cfg
      then (task, http_Error quota_reached_body StatusBadRequest, [MutexLock, MutexUnlock])
      else
        (case decodeJSONBody r of
           (effs, Inl err) \<Rightarrow>
             (task, http_Error invalid_body_body StatusBadRequest,
              [MutexLock] @ effs @ [MutexUnlock])
         | (effs, Inr request_URL) \<Rightarrow>
             if \<not> isValidURL request_URL
             then (task, http_Error invalid_url_body StatusBadRequest,
                   [MutexLock] @ effs @ [MutexUnlock])
             else if \<not> hasAllowedExtension request_URL
             then (task, http_Error not_allowed_body StatusBadRequest,
                   [MutexLock] @ effs @ [MutexUnlock])
             else
               (case downloadFile request_URL net of
                  Inl err \<Rightarrow>
                    (let task1 = task\<lparr>Errors := Errors task @ [download_diagnostic request_URL err]\<rparr>
                     in (task1, Fprintf_response StatusAccepted (download_failed_body task1),
                         [MutexLock] @ effs @ [HttpGet request_URL, MutexUnlock]))
                | Inr (data, filename) \<Rightarrow>
                    (let task1 = task\<lparr>Files := Files task @
                                   [\<lparr>URL = request_URL, Filename = filename, Data = data\<rparr>]\<rparr>;
                         full = (int (length (Files task1)) = MaxFilesPerTask cfg);
                         task2 = (if full then task1\<lparr>Status := ''processing''\<rparr> else task1)
                     in (task2, Fprintf_response StatusAccepted (accepted_body task2),
                         [MutexLock] @ effs @ [HttpGet request_URL] @
                         (if full then [GoCreateZipArchive] else []) @ [MutexUnlock])))))"

subsection \<open>handleTaskFiles, the branch of \<open>http.MethodGet\<close>\<close>

definition handleTaskFiles_GET :: "Task \<Rightarrow> response \<times> effect list" where
  "handleTaskFiles_GET task =
     (let response = [(''task_id'', JString (ID task)),
                      (''status'', JString (Status task)),
                      (''files_count'', JInt (int (length (Files task)))),
                      (''errors'', JStrings (Errors task))];
          response = (if Status task = ''completed'' \<and> ZipPath task \<noteq> []
                      then response @
                           [(''download_url'', JString (''/download/'' @ filepath_Base (ZipPath task)))]
                      else response)
      in (JSON_response StatusOK response, [MutexLock, MutexUnlock]))"

subsection \<open>createZipArchive\<close>

text \<open>
  What the file system and the zip writer do is decided outside the program:
  \<open>os.Create\<close> fails or not, and for each file \<open>zipWriter.Create\<close> fails, or
  \<open>fileWriter.Write\<close> fails, or the entry is written.
\<close>

datatype entry_outcome =
    CreateFailed go_error
  | WriteFailed go_error
  | EntryWritten

definition zipPath_of :: "Config \<Rightarrow> Task \<Rightarrow> string" where
  "zipPath_of cfg task = filepath_Join [TempFolder cfg, ID task @ ''.zip'']"

text \<open>The three places where the function writes to the task, each between
  \<open>task.Mutex.Lock()\<close> and \<open>task.Mutex.Unlock()\<close>.\<close>

definition create_failed :: "go_error \<Rightarrow> Task \<Rightarrow> Task" where
  "create_failed err task =
     task\<lparr>Status := ''failed'',
          Errors := Errors task @ [''Failed to create zip file: '' @ err]\<rparr>"

definition entry_diagnostic :: "File \<Rightarrow> entry_outcome \<Rightarrow> string option" where
  "entry_diagnostic file oc =
     (case oc of
        CreateFailed err \<Rightarrow>
          Some (''Failed to add file '' @ Filename file @ '' to archive: '' @ err)
      | WriteFailed err \<Rightarrow>
          Some (''Failed to write file '' @ Filename file @ '' to archive: '' @ err)
      | EntryWritten \<Rightarrow> None)"

definition add_entry :: "File \<Rightarrow> entry_outcome \<Rightarrow> Task \<Rightarrow> Task" where
  "add_entry file oc task =
     (case entry_diagnostic file oc of
        None \<Rightarrow> task
      | Some d \<Rightarrow> task\<lparr>Errors := Errors task @ [d]\<rparr>)"

definition completed :: "string \<Rightarrow> Task \<Rightarrow> Task" where
  "completed zipPath task = task\<lparr>Status := ''completed'', ZipPath := zipPath\<rparr>"

text \<open>The loop over \<open>task.Files\<close>; the outcome of the entry of index \<open>i\<close> is \<open>oc i\<close>.\<close>

fun entries_loop :: "(nat \<Rightarrow> entry_outcome) \<Rightarrow> nat \<Rightarrow> File list \<Rightarrow> Task \<Rightarrow> Task" where
  "entries_loop oc i [] task = task"
| "entries_loop oc i (file # files) task =
     entries_loop oc (Suc i) files (add_entry file (oc i) task)"

text \<open>
  The archive holds the entries that \<open>zipWriter.Create\<close> added, in the order of the
  files.  An entry is a name and a payload.  When \<open>zipWriter.Create\<close> fails there is no
  entry.  When \<open>fileWriter.Write\<close> fails the entry is already in the archive and nothing
  removes it; its payload was not written in full, which is the payload \<open>None\<close>.
\<close>

definition archive_entry :: "File \<Rightarrow> entry_outcome \<Rightarrow> (string \<times> string option) option" where
  "archive_entry file oc =
     (case oc of
        CreateFailed err \<Rightarrow> None
      | WriteFailed err \<Rightarrow> Some (Filename file, None)
      | EntryWritten \<Rightarrow> Some (Filename file, Some (Data file)))"

fun archive_entries ::
  "(nat \<Rightarrow> entry_outcome) \<Rightarrow> nat \<Rightarrow> File list \<Rightarrow> (string \<times> string option) list" where
  "archive_entries oc i [] = []"
| "archive_entries oc i (file # files) =
     (case archive_entry file (oc i) of None \<Rightarrow> [] | Some e \<Rightarrow> [e]) @
     archive_entries oc (Suc i) files"


text \<open>The whole function: the task when it returns and the archive it wrote (none
  when the archive file could not be created).  The deferred receive from \<open>taskSem\<close>
  acts on the semaphore, which belongs to the state of the whole server below.\<close>

definition createZipArchive ::
  "Config \<Rightarrow> go_error option \<Rightarrow> (nat \<Rightarrow> entry_outcome) \<Rightarrow> Task
     \<Rightarrow> Task \<times> (string \<times> string option) list option" where
  "createZipArchive cfg os_Create_err oc task =
     (let zipPath = zipPath_of cfg task
      in case os_Create_err of
           Some err \<Rightarrow> (create_failed err task, None)
         | None \<Rightarrow>
             (completed zipPath (entries_loop oc 0 (Files task) task),
              Some (archive_entries oc 0 (Files task))))"

section \<open>The server: tasks, registry and semaphore\<close>

text \<open>
  The tasks are objects on the heap, shared by pointer between the registry \<open>tasks\<close>,
  the handlers and the goroutines that run \<open>createZipArchive\<close>.  The heap is a list of
  cells and a pointer is an index into it; a cell holds the task and the goroutines that
  were started with a pointer to it, each at its place in \<open>createZipArchive\<close>:
  before \<open>os.Create\<close>, in the loop (with the archive path and the files still to
  write), at the deferred receive from \<open>taskSem\<close>, or returned.
  \<open>taskSem\<close> is a buffered channel of capacity \<open>MaxActiveTasks\<close>; only the number of
  elements in it matters.
\<close>

datatype build_pc =
    B_Create
  | B_Loop string "File list"
  | B_Release
  | B_Done

record System =
  heap :: "(Task \<times> build_pc list) list"
  tasks :: "(string \<times> nat) list"
  taskSem :: nat

definition init :: System where
  "init = \<lparr>heap = [], tasks = [], taskSem = 0\<rparr>"

text \<open>What an execution does to the semaphore and to the tasks: a send to
  \<open>taskSem\<close>, a receive from it, the statement \<open>go createZipArchive(task)\<close> and the
  assignment to \<open>task.ZipPath\<close>, with the pointer to the task.\<close>

datatype obs =
    SemSend
  | SemRecv
  | Go nat
  | Assign_ZipPath nat

definition created_body :: "string \<Rightarrow> string" where
  \<open>created_body taskID = ''{"task_id": "'' @ taskID @ ''", "status": "created"}''\<close>

definition busy_body :: string where
  \<open>busy_body = ''{"error": "Server is busy. Try again later."}''\<close>

text \<open>\<open>handleTasks\<close>; \<open>now1\<close> and \<open>now2\<close> are the two readings of the clock.  The send in
  the \<open>select\<close> succeeds when the channel is not full; otherwise the \<open>default\<close> branch
  runs.\<close>

definition handleTasks ::
  "Config \<Rightarrow> Request \<Rightarrow> int \<Rightarrow> int \<Rightarrow> System \<Rightarrow> System \<times> response \<times> obs list" where
  "handleTasks cfg r now1 now2 s =
     (if Method r \<noteq> ''POST''
      then (s, http_Error ''Method not allowed'' StatusMethodNotAllowed, [])
      else if int (taskSem s) < MaxActiveTasks cfg then
        (let taskID = generateTaskID now1;
             newTask = \<lparr>ID = taskID, Status = ''created'', Files = [], Errors = [],
                        ZipPath = [], CreatedAt = now2\<rparr>
         in (s\<lparr>heap := heap s @ [(newTask, [])],
                tasks := (taskID, length (heap s)) # tasks s,
                taskSem := Suc (taskSem s)\<rparr>,
             Fprintf_response StatusCreated (created_body taskID),
             [SemSend]))
      else (s, http_Error busy_body StatusServiceUnavailable, []))"

text \<open>The \<open>switch r.Method\<close> of \<open>handleTaskFiles\<close>, on the task at address \<open>addr\<close>.\<close>

definition handleTaskFiles_task ::
  "Config \<Rightarrow> Request \<Rightarrow> http_outcome \<Rightarrow> nat \<Rightarrow> System \<Rightarrow> System \<times> response \<times> obs list" where
  "handleTaskFiles_task cfg r net addr s =
     (if Method r = ''POST'' then
        (case heap s ! addr of
           (task, gs) \<Rightarrow>
             (case handleTaskFiles_POST cfg r net task of
                (task1, resp, effs) \<Rightarrow>
                  if GoCreateZipArchive \<in> set effs
                  then (s\<lparr>heap := (heap s)[addr := (task1, gs @ [B_Create])]\<rparr>, resp, [Go addr])
                  else (s\<lparr>heap := (heap s)[addr := (task1, gs)]\<rparr>, resp, [])))
      else if Method r = ''GET'' then
        (s, fst (handleTaskFiles_GET (fst (heap s ! addr))), [])
      else (s, http_Error ''Method not allowed'' StatusMethodNotAllowed, []))"

definition handleTaskFiles ::
  "Config \<Rightarrow> Request \<Rightarrow> http_outcome \<Rightarrow> System \<Rightarrow> System \<times> response \<times> obs list" where
  "handleTaskFiles cfg r net s =
     (let pathParts = strings_Split (URL_Path r) CHR ''/''
      in if length pathParts < TaskIDPathParts
         then (s, http_Error ''Invalid task ID'' StatusBadRequest, [])
         else
           (case map_of (tasks s) (pathParts ! 2) of
              None \<Rightarrow> (s, http_Error ''Task not found'' StatusNotFound, [])
            | Some addr \<Rightarrow> handleTaskFiles_task cfg r net addr s))"

text \<open>One step of a goroutine that runs \<open>createZipArchive\<close>, up to the deferred
  receive: the task and the place after the step, and whether the step assigned
  \<open>task.ZipPath\<close>.\<close>

fun createZipArchive_step ::
  "Config \<Rightarrow> go_error option \<Rightarrow> entry_outcome \<Rightarrow> Task \<Rightarrow> build_pc \<Rightarrow> Task \<times> build_pc \<times> bool" where
  "createZipArchive_step cfg os_Create_err oc task B_Create =
     (case os_Create_err of
        Some err \<Rightarrow> (create_failed err task, B_Release, False)
      | None \<Rightarrow> (task, B_Loop (zipPath_of cfg task) (Files task), False))"
| "createZipArchive_step cfg os_Create_err oc task (B_Loop zipPath (file # files)) =
     (add_entry file oc task, B_Loop zipPath files, False)"
| "createZipArchive_step cfg os_Create_err oc task (B_Loop zipPath []) =
     (completed zipPath task, B_Release, True)"
| "createZipArchive_step cfg os_Create_err oc task B_Release = (task, B_Release, False)"
| "createZipArchive_step cfg os_Create_err oc task B_Done = (task, B_Done, False)"

text \<open>A step of goroutine \<open>k\<close> of the task at \<open>addr\<close>.  The receive from \<open>taskSem\<close>
  needs an element in the channel; on an empty channel the goroutine stays blocked.\<close>

definition createZipArchive_at ::
  "Config \<Rightarrow> nat \<Rightarrow> nat \<Rightarrow> go_error option \<Rightarrow> entry_outcome \<Rightarrow> System \<Rightarrow> System \<times> obs list" where
  "createZipArchive_at cfg addr k os_Create_err oc s =
     (case heap s ! addr of
        (task, gs) \<Rightarrow>
          if k \<ge> length gs then (s, [])
          else if gs ! k = B_Release then
            (if taskSem s = 0 then (s, [])
             else (s\<lparr>heap := (heap s)[addr := (task, gs[k := B_Done])],
                     taskSem := taskSem s - 1\<rparr>, [SemRecv]))
          else
            (case createZipArchive_step cfg os_Create_err oc task (gs ! k) of
               (task1, pc, assigned) \<Rightarrow>
                 (s\<lparr>heap := (heap s)[addr := (task1, gs[k := pc])]\<rparr>,
                  if assigned then [Assign_ZipPath addr] else [])))"

text \<open>
  The events of an execution: a request to \<open>/tasks\<close>; a request to \<open>/tasks/\<close>, which
  looks the task up and runs the branch of its method under the lock of the task;
  the same for a request that had looked the task up earlier and kept the pointer; a step
  of a goroutine.  Each event carries what the clock, the network and the file system
  decide for it.
\<close>

datatype event =
    E_handleTasks Request int int
  | E_handleTaskFiles Request http_outcome
  | E_handleTaskFiles_task nat Request http_outcome
  | E_createZipArchive nat nat "go_error option" entry_outcome

fun step :: "Config \<Rightarrow> event \<Rightarrow> System \<Rightarrow> System \<times> obs list" where
  "step cfg (E_handleTasks r now1 now2) s =
     (case handleTasks cfg r now1 now2 s of (s1, resp, os) \<Rightarrow> (s1, os))"
| "step cfg (E_handleTaskFiles r net) s =
     (case handleTaskFiles cfg r net s of (s1, resp, os) \<Rightarrow> (s1, os))"
| "step cfg (E_handleTaskFiles_task addr r net) s =
     (if addr < length (heap s)
      then (case handleTaskFiles_task cfg r net addr s of (s1, resp, os) \<Rightarrow> (s1, os))
      else (s, []))"
| "step cfg (E_createZipArchive addr k os_Create_err oc) s =
     (if addr < length (heap s) then createZipArchive_at cfg addr k os_Create_err oc s
      else (s, []))"

text \<open>An execution from a state, with what was observed so far.\<close>

fun exec :: "Config \<Rightarrow> event list \<Rightarrow> System \<times> obs list \<Rightarrow> System \<times> obs list" where
  "exec cfg [] so = so"
| "exec cfg (e # es) (s, os) =
     (case step cfg e s of (s1, os1) \<Rightarrow> exec cfg es (s1, os @ os1))"

definition run :: "Config \<Rightarrow> event list \<Rightarrow> System \<times> obs list" where
  "run cfg es = exec cfg es (init, [])"

section \<open>Notions used in the statements\<close>

text \<open>A reference is a well-formed absolute URL when \<open>url.Parse\<close> accepts it and the
  parsed URL has a scheme (\<open>URL.IsAbs\<close>).\<close>

definition well_formed_absolute_URL :: "string \<Rightarrow> bool" where
  "well_formed_absolute_URL ref =
     (case url_Parse ref of Inl err \<Rightarrow> False | Inr u \<Rightarrow> Scheme u \<noteq> [])"

text \<open>Reading a list of effects from the left with the lock free or held:
  \<open>fetches_unlocked\<close> says that every \<open>http.Get\<close> happens while the lock is free,
  \<open>fetches_locked\<close> that every \<open>http.Get\<close> happens while the lock is held.\<close>

fun fetches_unlocked :: "bool \<Rightarrow> effect list \<Rightarrow> bool" where
  "fetches_unlocked held [] = True"
| "fetches_unlocked held (MutexLock # es) = fetches_unlocked True es"
| "fetches_unlocked held (MutexUnlock # es) = fetches_unlocked False es"
| "fetches_unlocked held (HttpGet u # es) = (\<not> held \<and> fetches_unlocked held es)"
| "fetches_unlocked held (ReadBody # es) = fetches_unlocked held es"
| "fetches_unlocked held (GoCreateZipArchive # es) = fetches_unlocked held es"

fun fetches_locked :: "bool \<Rightarrow> effect list \<Rightarrow> bool" where
  "fetches_locked held [] = True"
| "fetches_locked held (MutexLock # es) = fetches_locked True es"
| "fetches_locked held (MutexUnlock # es) = fetches_locked False es"
| "fetches_locked held (HttpGet u # es) = (held \<and> fetches_locked held es)"
| "fetches_locked held (ReadBody # es) = fetches_locked held es"
| "fetches_locked held (GoCreateZipArchive # es) = fetches_locked held es"

text \<open>The steps of one goroutine in sequence: \<open>n\<close> steps from a place, the entry of
  index \<open>i\<close> being the next to write.\<close>

fun createZipArchive_steps ::
  "Config \<Rightarrow> go_error option \<Rightarrow> (nat \<Rightarrow> entry_outcome) \<Rightarrow> nat \<Rightarrow> nat \<Rightarrow> Task \<Rightarrow> build_pc
     \<Rightarrow> Task \<times> build_pc" where
  "createZipArchive_steps cfg e oc i 0 task pc = (task, pc)"
| "createZipArchive_steps cfg e oc i (Suc n) task pc =
     (case createZipArchive_step cfg e (oc i) task pc of
        (task1, pc1, assigned) \<Rightarrow>
          createZipArchive_steps cfg e oc
            (case pc of B_Loop zipPath (file # files) \<Rightarrow> Suc i | _ \<Rightarrow> i) n task1 pc1)"

text \<open>The events that are steps of the first goroutine of the task at \<open>a\<close>, and a
  bound on the steps that a goroutine at a place still has to take until it has returned:
  from \<open>os.Create\<close> one step to enter the loop, one for each file, one to complete the
  task and one for the deferred receive.\<close>

fun is_step_of :: "nat \<Rightarrow> event \<Rightarrow> bool" where
  "is_step_of a (E_createZipArchive addr k os_Create_err oc) = (addr = a \<and> k = 0)"
| "is_step_of a (E_handleTasks r now1 now2) = False"
| "is_step_of a (E_handleTaskFiles r net) = False"
| "is_step_of a (E_handleTaskFiles_task addr r net) = False"

fun steps_left :: "Task \<Rightarrow> build_pc \<Rightarrow> nat" where
  "steps_left task B_Create = length (Files task) + 3"
| "steps_left task (B_Loop zipPath files) = length files + 2"
| "steps_left task B_Release = 1"
| "steps_left task B_Done = 0"

subsection \<open>Example inputs\<close>

definition example_file :: "string \<Rightarrow> File" where
  "example_file name = \<lparr>URL = ''http://h/'' @ name, Filename = name, Data = ''data''\<rparr>"

definition example_task :: "File list \<Rightarrow> Task" where
  "example_task fs =
     \<lparr>ID = ''7'', Status = (if length fs = 3 then ''processing'' else ''created''), Files = fs,
      Errors = [], ZipPath = [], CreatedAt = 8\<rparr>"

definition full_task :: Task where
  "full_task = example_task [example_file ''a.pdf'', example_file ''b.jpg'', example_file ''c.jpeg'']"

definition post_request :: "string \<Rightarrow> body_outcome \<Rightarrow> Request" where
  "post_request content_type body =
     \<lparr>Method = ''POST'', URL_Path = ''/tasks/7/files'', Content_Type = content_type, Body = body\<rparr>"

definition post_url :: "string \<Rightarrow> Request" where
  "post_url u = post_request ''application/json'' (Unmarshalled u)"

definition create_request :: Request where
  "create_request = \<lparr>Method = ''POST'', URL_Path = ''/tasks'', Content_Type = [], Body = Unmarshalled []\<rparr>"

definition fetched :: http_outcome where
  "fetched = GetResponse 200 (Inr ''data'')"

text \<open>A task is created and receives three files; a fourth is refused.\<close>

definition three_files :: "event list" where
  "three_files =
     [E_handleTasks create_request 7 8,
      E_handleTaskFiles (post_url ''http://h/a.pdf'') fetched,
      E_handleTaskFiles (post_url ''http://h/b.jpg'') fetched,
      E_handleTaskFiles (post_url ''http://h/c.jpeg'') fetched,
      E_handleTaskFiles (post_url ''http://h/d.jpeg'') fetched]"

text \<open>The archive of the task is then built; the second entry cannot be added.  The
  fifth step completes the task and the sixth receives from \<open>taskSem\<close>.\<close>

definition build_events :: "event list" where
  "build_events =
     [E_createZipArchive 0 0 None EntryWritten,
      E_createZipArchive 0 0 None EntryWritten,
      E_createZipArchive 0 0 None (CreateFailed ''duplicate''),
      E_createZipArchive 0 0 None EntryWritten,
      E_createZipArchive 0 0 None EntryWritten,
      E_createZipArchive 0 0 None EntryWritten]"



subsection \<open>The invariant of the server\<close>

text \<open>
  For one cell of the heap, with the number of \<open>go\<close> statements and of assignments to
  \<open>ZipPath\<close> observed for it: a task without goroutine is in state created, below its
  quota and without archive path; otherwise it has one goroutine, holds exactly the
  quota, and is processing until the goroutine leaves the body of \<open>createZipArchive\<close>,
  failed or completed afterwards.
\<close>

fun pc_inv :: "nat \<Rightarrow> Task \<Rightarrow> build_pc \<Rightarrow> bool" where
  "pc_inv zp task B_Create = (zp = 0 \<and> Status task = ''processing'' \<and> ZipPath task = [])"
| "pc_inv zp task (B_Loop zipPath files) =
     (zp = 0 \<and> Status task = ''processing'' \<and> ZipPath task = [] \<and> zipPath \<noteq> [])"
| "pc_inv zp task B_Release =
     (zp = 0 \<and> Status task = ''failed'' \<and> ZipPath task = []
      \<or> zp = 1 \<and> Status task = ''completed'' \<and> ZipPath task \<noteq> [])"
| "pc_inv zp task B_Done =
     (zp = 0 \<and> Status task = ''failed'' \<and> ZipPath task = []
      \<or> zp = 1 \<and> Status task = ''completed'' \<and> ZipPath task \<noteq> [])"

fun cell_inv :: "Config \<Rightarrow> nat \<Rightarrow> nat \<Rightarrow> Task \<times> build_pc list \<Rightarrow> bool" where
  "cell_inv cfg go zp (task, []) =
     (go = 0 \<and> zp = 0 \<and> Status task = ''created'' \<and> ZipPath task = []
      \<and> (int (length (Files task)) < MaxFilesPerTask cfg
          \<or> MaxFilesPerTask cfg \<le> 0 \<and> Files task = []))"
| "cell_inv cfg go zp (task, [pc]) =
     (go = 1 \<and> int (length (Files task)) = MaxFilesPerTask cfg \<and> 0 < MaxFilesPerTask cfg
      \<and> pc_inv zp task pc)"
| "cell_inv cfg go zp (task, pc # pc' # gs) = False"

definition done_count :: "(Task \<times> build_pc list) list \<Rightarrow> nat" where
  "done_count h = sum_list (map (\<lambda>c. count_list (snd c) B_Done) h)"

definition inv :: "Config \<Rightarrow> System \<times> obs list \<Rightarrow> bool" where
  "inv cfg so =
     (case so of
        (s, os) \<Rightarrow>
          (\<forall>a < length (heap s).
              cell_inv cfg (count_list os (Go a)) (count_list os (Assign_ZipPath a)) (heap s ! a))
          \<and> (\<forall>a \<ge> length (heap s).
                count_list os (Go a) = 0 \<and> count_list os (Assign_ZipPath a) = 0)
          \<and> (\<forall>p \<in> set (tasks s). snd p < length (heap s))
          \<and> taskSem s + done_count (heap s) = length (heap s)
          \<and> count_list os SemSend = length (heap s)
          \<and> count_list os SemRecv = done_count (heap s))"

section \<open>The branches of the POST handler\<close>

lemma decodeJSONBody_effects:
  "fst (decodeJSONBody r) = (if Content_Type r = ''application/json'' then [ReadBody] else [])"
  by (simp add: decodeJSONBody_def split: body_outcome.splits)

lemma decodeJSONBody_Inr:
  "snd (decodeJSONBody r) = Inr u \<Longrightarrow> decodeJSONBody r = ([ReadBody], Inr u)"
  by (auto simp add: decodeJSONBody_def split: body_outcome.splits if_splits)

lemma POST_at_quota:
  "MaxFilesPerTask cfg \<le> int (length (Files task)) \<Longrightarrow>
   handleTaskFiles_POST cfg r net task =
     (task, http_Error quota_reached_body StatusBadRequest, [MutexLock, MutexUnlock])"
  by (simp add: handleTaskFiles_POST_def)

lemma POST_bad_body:
  "int (length (Files task)) < MaxFilesPerTask cfg \<Longrightarrow> snd (decodeJSONBody r) = Inl err \<Longrightarrow>
   handleTaskFiles_POST cfg r net task =
     (task, http_Error invalid_body_body StatusBadRequest,
      [MutexLock] @ fst (decodeJSONBody r) @ [MutexUnlock])"
  by (cases "decodeJSONBody r") (simp add: handleTaskFiles_POST_def)

lemma POST_invalid_url:
  "int (length (Files task)) < MaxFilesPerTask cfg \<Longrightarrow> snd (decodeJSONBody r) = Inr u \<Longrightarrow>
   \<not> isValidURL u \<Longrightarrow>
   handleTaskFiles_POST cfg r net task =
     (task, http_Error invalid_url_body StatusBadRequest, [MutexLock, ReadBody, MutexUnlock])"
  by (simp add: handleTaskFiles_POST_def decodeJSONBody_Inr)

lemma POST_not_allowed:
  "int (length (Files task)) < MaxFilesPerTask cfg \<Longrightarrow> snd (decodeJSONBody r) = Inr u \<Longrightarrow>
   isValidURL u \<Longrightarrow> \<not> hasAllowedExtension u \<Longrightarrow>
   handleTaskFiles_POST cfg r net task =
     (task, http_Error not_allowed_body StatusBadRequest, [MutexLock, ReadBody, MutexUnlock])"
  by (simp add: handleTaskFiles_POST_def decodeJSONBody_Inr)

lemma POST_download_failed:
  "int (length (Files task)) < MaxFilesPerTask cfg \<Longrightarrow> snd (decodeJSONBody r) = Inr u \<Longrightarrow>
   isValidURL u \<Longrightarrow> hasAllowedExtension u \<Longrightarrow> downloadFile u net = Inl err \<Longrightarrow>
   handleTaskFiles_POST cfg r net task =
     (task\<lparr>Errors := Errors task @ [download_diagnostic u err]\<rparr>,
      Fprintf_response StatusAccepted
        (download_failed_body (task\<lparr>Errors := Errors task @ [download_diagnostic u err]\<rparr>)),
      [MutexLock, ReadBody, HttpGet u, MutexUnlock])"
  by (simp add: handleTaskFiles_POST_def decodeJSONBody_Inr Let_def)

lemma POST_downloaded:
  "int (length (Files task)) < MaxFilesPerTask cfg \<Longrightarrow> snd (decodeJSONBody r) = Inr u \<Longrightarrow>
   isValidURL u \<Longrightarrow> hasAllowedExtension u \<Longrightarrow> downloadFile u net = Inr (data, filename) \<Longrightarrow>
   handleTaskFiles_POST cfg r net task =
     (let task1 = task\<lparr>Files := Files task @ [\<lparr>URL = u, Filename = filename, Data = data\<rparr>]\<rparr>;
          full = (int (length (Files task1)) = MaxFilesPerTask cfg);
          task2 = (if full then task1\<lparr>Status := ''processing''\<rparr> else task1)
      in (task2, Fprintf_response StatusAccepted (accepted_body task2),
          [MutexLock, ReadBody, HttpGet u] @ (if full then [GoCreateZipArchive] else []) @ [MutexUnlock]))"
  by (simp add: handleTaskFiles_POST_def decodeJSONBody_Inr Let_def)


section \<open>The invariant holds in every execution\<close>

lemma zipPath_of_nonempty: "zipPath_of cfg task \<noteq> []"
proof -
  have clean: "filepath_Clean p \<noteq> []" for p
    by (simp add: filepath_Clean_def Let_def)
  have "dropWhile (\<lambda>e. e = []) [TempFolder cfg, ID task @ ''.zip''] \<noteq> []"
    by simp
  then show ?thesis
    by (simp add: zipPath_of_def filepath_Join_def clean split: list.splits)
qed

lemma pc_inv_Errors [simp]: "pc_inv zp (task\<lparr>Errors := e\<rparr>) pc = pc_inv zp task pc"
  by (cases pc) simp_all

lemma cell_inv_Errors [simp]:
  "cell_inv cfg go zp (task\<lparr>Errors := e\<rparr>, gs) = cell_inv cfg go zp (task, gs)"
  by (cases "(cfg, go, zp, (task, gs))" rule: cell_inv.cases) simp_all


lemma decodeJSONBody_no_go: "GoCreateZipArchive \<notin> set (fst (decodeJSONBody r))"
  by (simp add: decodeJSONBody_def split: body_outcome.splits)

lemma POST_shape:
  assumes "handleTaskFiles_POST cfg r net task = (task1, resp, effs)"
  shows "(task1 = task \<and> GoCreateZipArchive \<notin> set effs)
       \<or> (\<exists>d. task1 = task\<lparr>Errors := Errors task @ [d]\<rparr> \<and> GoCreateZipArchive \<notin> set effs)
       \<or> (\<exists>f. int (length (Files task)) < MaxFilesPerTask cfg \<and>
              (int (Suc (length (Files task))) = MaxFilesPerTask cfg
                 \<and> task1 = task\<lparr>Files := Files task @ [f], Status := ''processing''\<rparr>
                 \<and> GoCreateZipArchive \<in> set effs
               \<or> int (Suc (length (Files task))) \<noteq> MaxFilesPerTask cfg
                 \<and> task1 = task\<lparr>Files := Files task @ [f]\<rparr>
                 \<and> GoCreateZipArchive \<notin> set effs))"
proof (cases "MaxFilesPerTask cfg \<le> int (length (Files task))")
  case True
  with assms show ?thesis by (auto simp add: handleTaskFiles_POST_def)
next
  case below: False
  obtain effs0 res where dec: "decodeJSONBody r = (effs0, res)" by (cases "decodeJSONBody r")
  have nogo: "GoCreateZipArchive \<notin> set effs0" using decodeJSONBody_no_go [of r] dec by simp
  show ?thesis
  proof (cases res)
    case (Inl err)
    with assms below dec nogo show ?thesis by (auto simp add: handleTaskFiles_POST_def)
  next
    case (Inr u)
    show ?thesis
    proof (cases "isValidURL u \<and> hasAllowedExtension u")
      case False
      with assms below dec nogo Inr show ?thesis
        by (auto simp add: handleTaskFiles_POST_def split: if_splits)
    next
      case True
      show ?thesis
      proof (cases "downloadFile u net")
        case (Inl err)
        with assms below dec nogo Inr True show ?thesis
          by (auto simp add: handleTaskFiles_POST_def Let_def)
      next
        case (Inr df)
        obtain data filename where df: "df = (data, filename)" by (cases df)
        from assms below dec nogo \<open>res = Inr u\<close> True Inr df show ?thesis
          by (auto simp add: handleTaskFiles_POST_def Let_def split: if_splits)
      qed
    qed
  qed
qed

lemma cell_inv_POST:
  assumes "cell_inv cfg go zp (task, gs)"
    and "handleTaskFiles_POST cfg r net task = (task1, resp, effs)"
  shows "if GoCreateZipArchive \<in> set effs
         then cell_inv cfg (Suc go) zp (task1, gs @ [B_Create])
         else cell_inv cfg go zp (task1, gs)"
proof -
  from POST_shape [OF assms(2)]
  consider (same) "task1 = task" "GoCreateZipArchive \<notin> set effs"
    | (diag) d where "task1 = task\<lparr>Errors := Errors task @ [d]\<rparr>" "GoCreateZipArchive \<notin> set effs"
    | (full) f where "int (length (Files task)) < MaxFilesPerTask cfg"
        "int (Suc (length (Files task))) = MaxFilesPerTask cfg"
        "task1 = task\<lparr>Files := Files task @ [f], Status := ''processing''\<rparr>"
        "GoCreateZipArchive \<in> set effs"
    | (more) f where "int (length (Files task)) < MaxFilesPerTask cfg"
        "int (Suc (length (Files task))) \<noteq> MaxFilesPerTask cfg"
        "task1 = task\<lparr>Files := Files task @ [f]\<rparr>"
        "GoCreateZipArchive \<notin> set effs"
    by blast
  then show ?thesis
  proof cases
    case same
    with assms(1) show ?thesis by simp
  next
    case diag
    with assms(1) show ?thesis by simp
  next
    case full
    with assms(1) show ?thesis
      by (cases "(cfg, go, zp, (task, gs))" rule: cell_inv.cases) auto
  next
    case more
    with assms(1) show ?thesis
      by (cases "(cfg, go, zp, (task, gs))" rule: cell_inv.cases) auto
  qed
qed

lemma cell_inv_step:
  assumes "cell_inv cfg go zp (task, gs)" and "k < length gs" and "gs ! k \<noteq> B_Release"
    and "createZipArchive_step cfg e oc task (gs ! k) = (task1, pc, assigned)"
  shows "cell_inv cfg go (if assigned then Suc zp else zp) (task1, gs[k := pc])
         \<and> count_list (gs[k := pc]) B_Done = count_list gs B_Done"
proof -
  from assms(1,2) obtain pc0 where gs: "gs = [pc0]" and k: "k = 0"
    by (cases "(cfg, go, zp, (task, gs))" rule: cell_inv.cases) auto
  show ?thesis
  proof (cases pc0)
    case B_Create
    with assms gs k show ?thesis
      by (auto simp add: create_failed_def zipPath_of_nonempty split: option.splits)
  next
    case (B_Loop zipPath files)
    with assms gs k show ?thesis
      by (cases files) (auto simp add: completed_def add_entry_def split: option.splits)
  next
    case B_Release
    with assms gs k show ?thesis by simp
  next
    case B_Done
    with assms gs k show ?thesis by auto
  qed
qed

lemma cell_inv_release:
  assumes "cell_inv cfg go zp (task, gs)" and "k < length gs" and "gs ! k = B_Release"
  shows "cell_inv cfg go zp (task, gs[k := B_Done])
         \<and> count_list (gs[k := B_Done]) B_Done = Suc (count_list gs B_Done)"
proof -
  from assms(1,2) obtain pc0 where gs: "gs = [pc0]" and k: "k = 0"
    by (cases "(cfg, go, zp, (task, gs))" rule: cell_inv.cases) auto
  with assms show ?thesis by auto
qed

lemma sum_list_map_update:
  "a < length h \<Longrightarrow>
   sum_list (map f (h[a := c])) + f (h ! a) = sum_list (map f h) + (f c :: nat)"
proof (induction h arbitrary: a)
  case Nil
  then show ?case by simp
next
  case (Cons x xs)
  then show ?case by (cases a) auto
qed

lemma done_count_update:
  "a < length h \<Longrightarrow>
   done_count (h[a := c]) + count_list (snd (h ! a)) B_Done = done_count h + count_list (snd c) B_Done"
  unfolding done_count_def by (rule sum_list_map_update)


lemma inv_update_cell:
  assumes i: "inv cfg (s, os)" and a: "a < length (heap s)"
    and c: "cell_inv cfg (count_list (os @ new) (Go a)) (count_list (os @ new) (Assign_ZipPath a)) c"
    and d: "count_list (snd c) B_Done = count_list (snd (heap s ! a)) B_Done"
    and n: "set new \<subseteq> {Go a, Assign_ZipPath a}"
  shows "inv cfg (s\<lparr>heap := (heap s)[a := c]\<rparr>, os @ new)"
proof -
  have other: "count_list new x = 0" if "x \<noteq> Go a" "x \<noteq> Assign_ZipPath a" for x
    using n that by (auto simp add: count_list_0_iff)
  have cells: "cell_inv cfg (count_list (os @ new) (Go b)) (count_list (os @ new) (Assign_ZipPath b))
                 ((heap s)[a := c] ! b)" if "b < length (heap s)" for b
  proof (cases "b = a")
    case True
    with a c show ?thesis by simp
  next
    case False
    with i that show ?thesis by (simp add: inv_def other)
  qed
  have fresh: "count_list (os @ new) (Go b) = 0 \<and> count_list (os @ new) (Assign_ZipPath b) = 0"
    if "length (heap s) \<le> b" for b
    using i a that by (simp add: inv_def other)
  have dc: "done_count ((heap s)[a := c]) = done_count (heap s)"
    using done_count_update [OF a, of c] d by simp
  from i cells fresh dc show ?thesis
    by (simp add: inv_def other)
qed

lemma inv_release_cell:
  assumes i: "inv cfg (s, os)" and a: "a < length (heap s)"
    and c: "cell_inv cfg (count_list os (Go a)) (count_list os (Assign_ZipPath a)) c"
    and d: "count_list (snd c) B_Done = Suc (count_list (snd (heap s ! a)) B_Done)"
    and pos: "taskSem s \<noteq> 0"
  shows "inv cfg (s\<lparr>heap := (heap s)[a := c], taskSem := taskSem s - 1\<rparr>, os @ [SemRecv])"
proof -
  have cells: "cell_inv cfg (count_list os (Go b)) (count_list os (Assign_ZipPath b))
                 ((heap s)[a := c] ! b)" if "b < length (heap s)" for b
  proof (cases "b = a")
    case True
    with a c show ?thesis by simp
  next
    case False
    with i that show ?thesis by (simp add: inv_def)
  qed
  have dc: "done_count ((heap s)[a := c]) = Suc (done_count (heap s))"
    using done_count_update [OF a, of c] d by simp
  have "taskSem s + done_count (heap s) = length (heap s)"
    using i by (simp add: inv_def)
  with pos have sem: "taskSem s - 1 + Suc (done_count (heap s)) = length (heap s)"
    by linarith
  have fresh: "\<forall>b \<ge> length (heap s). count_list os (Go b) = 0 \<and> count_list os (Assign_ZipPath b) = 0"
    using i by (simp add: inv_def)
  have reg: "\<forall>p \<in> set (tasks s). snd p < length (heap s)"
    using i by (simp add: inv_def)
  have cnt: "count_list os SemSend = length (heap s)" "count_list os SemRecv = done_count (heap s)"
    using i by (simp_all add: inv_def)
  show ?thesis
    unfolding inv_def using cells fresh reg cnt sem dc by simp
qed


lemma inv_handleTasks:
  assumes i: "inv cfg (s, os)" and h: "handleTasks cfg r now1 now2 s = (s1, resp, os1)"
  shows "inv cfg (s1, os @ os1)"
proof (cases "Method r = ''POST'' \<and> int (taskSem s) < MaxActiveTasks cfg")
  case False
  with h have "s1 = s" "os1 = []" by (auto simp add: handleTasks_def split: if_splits)
  with i show ?thesis by simp
next
  case True
  define newTask where "newTask = \<lparr>ID = generateTaskID now1, Status = ''created'', Files = [],
      Errors = [], ZipPath = [], CreatedAt = now2\<rparr>"
  from True h have s1: "s1 = s\<lparr>heap := heap s @ [(newTask, [])],
      tasks := (generateTaskID now1, length (heap s)) # tasks s, taskSem := Suc (taskSem s)\<rparr>"
    and os1: "os1 = [SemSend]"
    by (auto simp add: handleTasks_def Let_def newTask_def)
  have new: "cell_inv cfg 0 0 (newTask, [])"
    by (simp add: newTask_def) linarith
  have cells: "cell_inv cfg (count_list os (Go b)) (count_list os (Assign_ZipPath b))
                 ((heap s @ [(newTask, [])]) ! b)" if "b < Suc (length (heap s))" for b
  proof (cases "b < length (heap s)")
    case True
    with i show ?thesis by (simp add: inv_def nth_append)
  next
    case False
    with that have b: "b = length (heap s)" by simp
    with i have "count_list os (Go b) = 0" "count_list os (Assign_ZipPath b) = 0"
      by (simp_all add: inv_def)
    with new b show ?thesis by simp
  qed
  have fresh: "\<forall>b \<ge> Suc (length (heap s)).
      count_list os (Go b) = 0 \<and> count_list os (Assign_ZipPath b) = 0"
    using i by (simp add: inv_def)
  have reg: "\<forall>p \<in> set (tasks s). snd p < Suc (length (heap s))"
    using i by (auto simp add: inv_def)
  have dc: "done_count (heap s @ [(newTask, [])]) = done_count (heap s)"
    by (simp add: done_count_def)
  have sem: "taskSem s + done_count (heap s) = length (heap s)"
    and cnt: "count_list os SemSend = length (heap s)" "count_list os SemRecv = done_count (heap s)"
    using i by (simp_all add: inv_def)
  show ?thesis
    unfolding inv_def s1 os1 using cells fresh reg dc sem cnt by simp
qed

lemma inv_handleTaskFiles_task:
  assumes i: "inv cfg (s, os)" and a: "addr < length (heap s)"
    and h: "handleTaskFiles_task cfg r net addr s = (s1, resp, os1)"
  shows "inv cfg (s1, os @ os1)"
proof (cases "Method r = ''POST''")
  case False
  with h have "s1 = s" "os1 = []" by (auto simp add: handleTaskFiles_task_def split: if_splits)
  with i show ?thesis by simp
next
  case True
  obtain task gs where cell: "heap s ! addr = (task, gs)" by (cases "heap s ! addr")
  obtain task1 resp1 effs where p: "handleTaskFiles_POST cfg r net task = (task1, resp1, effs)"
    by (cases "handleTaskFiles_POST cfg r net task")
  from i a cell have ci: "cell_inv cfg (count_list os (Go addr)) (count_list os (Assign_ZipPath addr)) (task, gs)"
    by (auto simp add: inv_def)
  note step = cell_inv_POST [OF ci p]
  show ?thesis
  proof (cases "GoCreateZipArchive \<in> set effs")
    case go: True
    with True h cell p have s1: "s1 = s\<lparr>heap := (heap s)[addr := (task1, gs @ [B_Create])]\<rparr>"
      and os1: "os1 = [Go addr]"
      by (auto simp add: handleTaskFiles_task_def)
    show ?thesis unfolding s1 os1
      by (rule inv_update_cell [OF i a]) (use step go cell in simp_all)
  next
    case nogo: False
    with True h cell p have s1: "s1 = s\<lparr>heap := (heap s)[addr := (task1, gs)]\<rparr>"
      and os1: "os1 = []"
      by (auto simp add: handleTaskFiles_task_def)
    show ?thesis unfolding s1 os1
      by (rule inv_update_cell [OF i a]) (use step nogo cell in simp_all)
  qed
qed

lemma inv_handleTaskFiles:
  assumes i: "inv cfg (s, os)" and h: "handleTaskFiles cfg r net s = (s1, resp, os1)"
  shows "inv cfg (s1, os @ os1)"
proof (cases "length (strings_Split (URL_Path r) CHR ''/'') < TaskIDPathParts")
  case True
  with h have "s1 = s" "os1 = []" by (auto simp add: handleTaskFiles_def)
  with i show ?thesis by simp
next
  case False
  show ?thesis
  proof (cases "map_of (tasks s) (strings_Split (URL_Path r) CHR ''/'' ! 2)")
    case None
    with False h have "s1 = s" "os1 = []" by (auto simp add: handleTaskFiles_def)
    with i show ?thesis by simp
  next
    case (Some addr)
    then have "(strings_Split (URL_Path r) CHR ''/'' ! 2, addr) \<in> set (tasks s)"
      by (rule map_of_SomeD)
    with i have a: "addr < length (heap s)" by (auto simp add: inv_def)
    from False Some h have "handleTaskFiles_task cfg r net addr s = (s1, resp, os1)"
      by (simp add: handleTaskFiles_def)
    from inv_handleTaskFiles_task [OF i a this] show ?thesis .
  qed
qed

lemma inv_createZipArchive_at:
  assumes i: "inv cfg (s, os)" and a: "addr < length (heap s)"
    and h: "createZipArchive_at cfg addr k e oc s = (s1, os1)"
  shows "inv cfg (s1, os @ os1)"
proof -
  obtain task gs where cell: "heap s ! addr = (task, gs)" by (cases "heap s ! addr")
  from i a cell have ci: "cell_inv cfg (count_list os (Go addr)) (count_list os (Assign_ZipPath addr)) (task, gs)"
    by (auto simp add: inv_def)
  consider (idle) "length gs \<le> k \<or> gs ! k = B_Release \<and> taskSem s = 0"
    | (release) "k < length gs" "gs ! k = B_Release" "taskSem s \<noteq> 0"
    | (step) "k < length gs" "gs ! k \<noteq> B_Release"
    by fastforce
  then show ?thesis
  proof cases
    case idle
    with h cell have "s1 = s" "os1 = []" by (auto simp add: createZipArchive_at_def split: if_splits)
    with i show ?thesis by simp
  next
    case release
    with h cell have s1: "s1 = s\<lparr>heap := (heap s)[addr := (task, gs[k := B_Done])],
        taskSem := taskSem s - 1\<rparr>" and os1: "os1 = [SemRecv]"
      by (auto simp add: createZipArchive_at_def)
    from cell_inv_release [OF ci release(1,2)] show ?thesis unfolding s1 os1
      by (intro inv_release_cell [OF i a]) (simp_all add: cell release(3))
  next
    case step
    obtain task1 pc assigned where st:
      "createZipArchive_step cfg e oc task (gs ! k) = (task1, pc, assigned)"
      by (cases "createZipArchive_step cfg e oc task (gs ! k)")
    with step h cell have s1: "s1 = s\<lparr>heap := (heap s)[addr := (task1, gs[k := pc])]\<rparr>"
      and os1: "os1 = (if assigned then [Assign_ZipPath addr] else [])"
      by (auto simp add: createZipArchive_at_def)
    from cell_inv_step [OF ci step st] show ?thesis unfolding s1 os1
      by (intro inv_update_cell [OF i a]) (auto simp add: cell split: if_splits)
  qed
qed

lemma inv_step:
  assumes "inv cfg (s, os)" and "step cfg e s = (s1, os1)"
  shows "inv cfg (s1, os @ os1)"
proof (cases e)
  case (E_handleTasks r now1 now2)
  with assms show ?thesis
    by (auto split: prod.splits dest: inv_handleTasks)
next
  case (E_handleTaskFiles r net)
  with assms show ?thesis
    by (auto split: prod.splits dest: inv_handleTaskFiles)
next
  case (E_handleTaskFiles_task addr r net)
  with assms show ?thesis
    by (auto split: prod.splits if_splits dest: inv_handleTaskFiles_task)
next
  case (E_createZipArchive addr k err oc)
  with assms show ?thesis
    by (auto split: if_splits dest: inv_createZipArchive_at)
qed

lemma inv_exec: "inv cfg so \<Longrightarrow> inv cfg (exec cfg es so)"
proof (induction es arbitrary: so)
  case Nil
  then show ?case by simp
next
  case (Cons e es)
  obtain s os where so: "so = (s, os)" by (cases so)
  obtain s1 os1 where st: "step cfg e s = (s1, os1)" by (cases "step cfg e s")
  from Cons.prems so st have "inv cfg (s1, os @ os1)" by (simp add: inv_step)
  from Cons.IH [OF this] so st show ?case by simp
qed

lemma inv_run: "inv cfg (run cfg es)"
  unfolding run_def by (rule inv_exec) (simp add: inv_def init_def done_count_def)


section \<open>The archive builder\<close>








text \<open>The steps of a goroutine, taken one after the other, compute what
  \<open>createZipArchive\<close> computes.\<close>

lemma steps_loop:
  "createZipArchive_steps cfg e oc i (Suc (length fs)) task (B_Loop zipPath fs) =
     (completed zipPath (entries_loop oc i fs task), B_Release)"
  by (induction fs arbitrary: i task) simp_all

lemma steps_refine_createZipArchive:
  "createZipArchive_steps cfg None oc 0 (length (Files task) + 2) task B_Create =
     (fst (createZipArchive cfg None oc task), B_Release)"
  "createZipArchive_steps cfg (Some err) oc 0 1 task B_Create =
     (fst (createZipArchive cfg (Some err) oc task), B_Release)"
  using steps_loop [of cfg None oc 0 "Files task" task "zipPath_of cfg task"]
  by (simp_all add: createZipArchive_def)

section \<open>Further facts about the handler and the semaphore\<close>

lemma bodies_distinct:
  "invalid_url_body \<noteq> not_allowed_body" "invalid_url_body \<noteq> invalid_body_body"
  "invalid_url_body \<noteq> quota_reached_body" "invalid_body_body \<noteq> quota_reached_body"
  by (simp_all add: invalid_url_body_def not_allowed_body_def invalid_body_body_def
      quota_reached_body_def)

lemma decodeJSONBody_effs:
  "fst (decodeJSONBody r) = [] \<or> fst (decodeJSONBody r) = [ReadBody]"
  by (simp add: decodeJSONBody_def split: body_outcome.splits)

lemma POST_dispatch_iff:
  "(GoCreateZipArchive \<in> set (snd (snd (handleTaskFiles_POST cfg r net task)))) =
   (length (Files (fst (handleTaskFiles_POST cfg r net task))) = Suc (length (Files task))
    \<and> int (Suc (length (Files task))) = MaxFilesPerTask cfg)"
proof -
  obtain task1 resp effs where p: "handleTaskFiles_POST cfg r net task = (task1, resp, effs)"
    by (cases "handleTaskFiles_POST cfg r net task")
  from POST_shape [OF p] show ?thesis unfolding p by auto
qed

lemma taskSem_step:
  assumes "step cfg e s = (s1, os1)" and "int (taskSem s) \<le> MaxActiveTasks cfg"
  shows "int (taskSem s1) \<le> MaxActiveTasks cfg"
proof (cases e)
  case (E_handleTasks r now1 now2)
  with assms show ?thesis
    by (auto simp add: handleTasks_def Let_def split: if_splits)
next
  case (E_handleTaskFiles r net)
  with assms show ?thesis
    by (auto simp add: handleTaskFiles_def handleTaskFiles_task_def Let_def
        split: if_splits option.splits prod.splits)
next
  case (E_handleTaskFiles_task addr r net)
  with assms show ?thesis
    by (auto simp add: handleTaskFiles_task_def split: if_splits prod.splits)
next
  case (E_createZipArchive addr k err oc)
  with assms show ?thesis
    by (auto simp add: createZipArchive_at_def split: if_splits prod.splits)
qed

lemma taskSem_exec:
  "int (taskSem (fst so)) \<le> MaxActiveTasks cfg \<Longrightarrow>
   int (taskSem (fst (exec cfg es so))) \<le> MaxActiveTasks cfg"
proof (induction es arbitrary: so)
  case Nil
  then show ?case by simp
next
  case (Cons e es)
  obtain s os where so: "so = (s, os)" by (cases so)
  obtain s1 os1 where st: "step cfg e s = (s1, os1)" by (cases "step cfg e s")
  from Cons.prems so st have "int (taskSem (fst (s1, os @ os1))) \<le> MaxActiveTasks cfg"
    by (simp add: taskSem_step)
  from Cons.IH [OF this] so st show ?case by simp
qed

lemma done_count_le: "\<forall>c \<in> set h. count_list (snd c) B_Done \<le> 1 \<Longrightarrow> done_count h \<le> length h"
  unfolding done_count_def by (induction h) auto

lemma cell_inv_one_goroutine:
  "cell_inv cfg go zp (task, gs) \<Longrightarrow> length gs = go \<and> go \<le> 1"
  by (cases "(cfg, go, zp, (task, gs))" rule: cell_inv.cases) auto

lemma release_not_blocked:
  assumes i: "inv cfg (s, os)" and a: "a < length (heap s)"
    and r: "B_Release \<in> set (snd (heap s ! a))"
  shows "taskSem s \<noteq> 0"
proof -
  obtain task gs where cell: "heap s ! a = (task, gs)" by (cases "heap s ! a")
  have ci: "cell_inv cfg (count_list os (Go b)) (count_list os (Assign_ZipPath b)) (heap s ! b)"
    if "b < length (heap s)" for b
    using i that by (simp add: inv_def)
  from ci [OF a] cell r have gs: "gs = [B_Release]"
    by (cases "(cfg, count_list os (Go a), count_list os (Assign_ZipPath a), (task, gs))"
        rule: cell_inv.cases) auto
  let ?h = "(heap s)[a := (task, [B_Done])]"
  have "count_list (snd c) B_Done \<le> 1" if "c \<in> set ?h" for c
  proof -
    from that obtain b where b: "b < length (heap s)" "c = ?h ! b"
      by (auto simp add: in_set_conv_nth)
    show ?thesis
    proof (cases "b = a")
      case True
      with b a show ?thesis by simp
    next
      case False
      obtain t g where tg: "heap s ! b = (t, g)" by (cases "heap s ! b")
      with ci [OF b(1)] have "length g \<le> 1" by (auto dest: cell_inv_one_goroutine)
      then have "count_list g B_Done \<le> 1"
        by (cases g) auto
      with False b tg show ?thesis by simp
    qed
  qed
  then have "done_count ?h \<le> length ?h" by (intro done_count_le) blast
  moreover have "done_count ?h = Suc (done_count (heap s))"
    using done_count_update [OF a, of "(task, [B_Done])"] cell gs by simp
  moreover have "taskSem s + done_count (heap s) = length (heap s)"
    using i by (simp add: inv_def)
  ultimately show ?thesis by simp
qed

text \<open>A goroutine that has started takes its steps to the end: the deferred receive
  is never blocked, so after the steps it has left it has returned.\<close>

lemma exec_append: "exec cfg (es @ evs) so = exec cfg evs (exec cfg es so)"
proof (induction es arbitrary: so)
  case Nil
  then show ?case by simp
next
  case (Cons e es)
  obtain s os where so: "so = (s, os)" by (cases so)
  show ?case unfolding so by (simp add: Cons.IH split: prod.splits)
qed

lemma run_append: "run cfg (es @ evs) = exec cfg evs (run cfg es)"
  by (simp add: run_def exec_append)

lemma done_count_filter:
  "\<forall>c \<in> set h. length (snd c) \<le> 1 \<Longrightarrow>
   done_count h = length (filter (\<lambda>c. snd c = [B_Done]) h)"
proof (induction h)
  case Nil
  then show ?case by (simp add: done_count_def)
next
  case (Cons c h)
  then have "length (snd c) \<le> 1" by simp
  then have "count_list (snd c) B_Done = (if snd c = [B_Done] then 1 else 0)"
    by (cases "snd c") auto
  with Cons show ?case by (simp add: done_count_def)
qed

lemma inv_one_goroutine:
  assumes "inv cfg (s, os)" and "a < length (heap s)"
  shows "length (snd (heap s ! a)) \<le> 1"
proof -
  obtain t g where tg: "heap s ! a = (t, g)" by (cases "heap s ! a")
  with assms have "cell_inv cfg (count_list os (Go a)) (count_list os (Assign_ZipPath a)) (t, g)"
    by (auto simp add: inv_def)
  with tg show ?thesis by (auto dest: cell_inv_one_goroutine)
qed

lemma goroutine_step:
  assumes a: "a < length (heap s)" and cell: "heap s ! a = (task, [pc])"
    and free: "pc = B_Release \<longrightarrow> taskSem s \<noteq> 0"
  shows "\<exists>task1 pc1. heap (fst (createZipArchive_at cfg a 0 e oc s)) ! a = (task1, [pc1])
           \<and> steps_left task1 pc1 \<le> steps_left task pc - 1"
proof (cases pc)
  case B_Create
  with a cell show ?thesis
    by (cases e) (simp_all add: createZipArchive_at_def create_failed_def)
next
  case (B_Loop zipPath files)
  with a cell show ?thesis
    by (cases files) (simp_all add: createZipArchive_at_def)
next
  case B_Release
  with a cell free show ?thesis
    by (simp add: createZipArchive_at_def)
next
  case B_Done
  with a cell show ?thesis
    by (simp add: createZipArchive_at_def)
qed

lemma createZipArchive_at_length:
  "length (heap (fst (createZipArchive_at cfg a k e oc s))) = length (heap s)"
  by (simp add: createZipArchive_at_def split: prod.splits)

lemma goroutine_finishes:
  assumes "inv cfg (s, os)" and "a < length (heap s)" and "heap s ! a = (task, [pc])"
    and "list_all (is_step_of a) evs" and "steps_left task pc \<le> length evs"
  shows "snd (heap (fst (exec cfg evs (s, os))) ! a) = [B_Done]"
  using assms
proof (induction evs arbitrary: s os task pc)
  case Nil
  then show ?case by (cases pc) simp_all
next
  case (Cons ev evs)
  from Cons.prems(4) obtain e oc where ev: "ev = E_createZipArchive a 0 e oc"
    by (cases ev) auto
  obtain s1 os1 where st: "createZipArchive_at cfg a 0 e oc s = (s1, os1)"
    by (cases "createZipArchive_at cfg a 0 e oc s")
  have free: "pc = B_Release \<longrightarrow> taskSem s \<noteq> 0"
    using release_not_blocked [OF Cons.prems(1,2)] Cons.prems(3) by simp
  from goroutine_step [OF Cons.prems(2,3) free, of cfg e oc] st
  obtain task1 pc1 where c1: "heap s1 ! a = (task1, [pc1])"
    and le: "steps_left task1 pc1 \<le> steps_left task pc - 1"
    by auto
  have i1: "inv cfg (s1, os @ os1)"
    using inv_createZipArchive_at [OF Cons.prems(1,2) st] .
  have a1: "a < length (heap s1)"
    using createZipArchive_at_length [of cfg a 0 e oc s] st Cons.prems(2) by simp
  from le Cons.prems(5) have le1: "steps_left task1 pc1 \<le> length evs" by simp
  from Cons.prems(4) have all: "list_all (is_step_of a) evs" by simp
  from Cons.IH [OF i1 a1 c1 all le1] show ?case
    using ev st Cons.prems(2) by simp
qed

section \<open>References that \<open>url.Parse\<close> rejects\<close>

text \<open>A reference that passes \<open>isValidURL\<close> begins with a scheme; if \<open>url.Parse\<close>
  accepts it, the parsed URL has that scheme.  So a reference with the prefix that is
  not a well-formed absolute URL is rejected by \<open>url.Parse\<close>, and
  \<open>hasAllowedExtension\<close> refuses it.\<close>

lemma getScheme_http:
  "getScheme (''http://'' @ rest) = Inr (''http'', ''//'' @ rest)"
  "getScheme (''https://'' @ rest) = Inr (''https'', ''//'' @ rest)"
  by (simp_all add: getScheme_def lower_letters_def upper_letters_def decimal_digits_def)

lemma setPath_Scheme: "setPath u p = Inr v \<Longrightarrow> Scheme v = Scheme u"
  by (auto simp add: setPath_def split: sum.splits)

lemma setFragment_Scheme: "setFragment u f = Inr v \<Longrightarrow> Scheme v = Scheme u"
  by (auto simp add: setFragment_def split: sum.splits)

lemma url_parse_Scheme:
  assumes "getScheme raw = Inr (sch, rest)" and "url_parse raw = Inr p" and "raw \<noteq> ''*''"
  shows "Scheme p = strings_ToLower sch"
  using assms
  by (auto simp add: url_parse_def Let_def empty_url_def split: if_splits sum.splits
      dest!: setPath_Scheme)

lemma takeWhile_prefix:
  "sep \<notin> set pre \<Longrightarrow>
   takeWhile (\<lambda>c. c \<noteq> sep) (pre @ rest) = pre @ takeWhile (\<lambda>c. c \<noteq> sep) rest"
  by (induction pre) auto

lemma Cut_prefix:
  "CHR ''#'' \<notin> set pre \<Longrightarrow>
   fst (strings_Cut (pre @ rest) CHR ''#'') = pre @ fst (strings_Cut rest CHR ''#'')"
  by (simp add: strings_Cut_def takeWhile_prefix)

lemma HasPrefix_append: "strings_HasPrefix u pre \<Longrightarrow> \<exists>rest. u = pre @ rest"
proof -
  assume "strings_HasPrefix u pre"
  then have "take (length pre) u = pre" by (simp add: strings_HasPrefix_def)
  then have "u = pre @ drop (length pre) u" by (metis append_take_drop_id)
  then show ?thesis by blast
qed

lemma isValidURL_prefix:
  "isValidURL u \<Longrightarrow> \<exists>rest. u = ''http://'' @ rest \<or> u = ''https://'' @ rest"
  unfolding isValidURL_def using HasPrefix_append by blast

lemma valid_parsed_has_scheme:
  assumes "isValidURL u" and "url_Parse u = Inr p"
  shows "Scheme p \<noteq> []"
proof -
  from isValidURL_prefix [OF assms(1)] obtain pre rest
    where u: "u = pre @ rest" and pre: "pre = ''http://'' \<or> pre = ''https://''"
    by blast
  define raw where "raw = pre @ fst (strings_Cut rest CHR ''#'')"
  from pre have cut: "fst (strings_Cut u CHR ''#'') = raw"
    unfolding u raw_def by (intro Cut_prefix) auto
  from pre obtain sch where gs: "getScheme raw = Inr (sch, ''//'' @ fst (strings_Cut rest CHR ''#''))"
    and sch: "sch = ''http'' \<or> sch = ''https''"
    unfolding raw_def using getScheme_http by auto
  from pre have star: "raw \<noteq> ''*''" unfolding raw_def by auto
  from assms(2) cut obtain parsed where parsed: "url_parse raw = Inr parsed"
    and p: "p = parsed \<or> (\<exists>f. setFragment parsed f = Inr p)"
    by (auto simp add: url_Parse_def split: prod.splits sum.splits if_splits)
  from url_parse_Scheme [OF gs parsed star] sch have "Scheme parsed \<noteq> []"
    by (auto simp add: strings_ToLower_def)
  with p show ?thesis by (auto dest: setFragment_Scheme)
qed

lemma ill_formed_not_allowed:
  assumes "isValidURL u" and "\<not> well_formed_absolute_URL u"
  shows "\<not> hasAllowedExtension u"
proof -
  from assms valid_parsed_has_scheme [OF assms(1)] obtain err where "url_Parse u = Inl err"
    by (cases "url_Parse u") (auto simp add: well_formed_absolute_URL_def)
  then show ?thesis by (simp add: hasAllowedExtension_def parseURL_def)
qed

section \<open>The claims\<close>

text \<open>
  Claim C1.  In every execution and for every task, the number of files of the task is
  at most \<open>MaxFilesPerTask\<close> (for a quota that is not negative), and the statement
  \<open>go createZipArchive(task)\<close> has run for the task at most once: it has run exactly
  once when the task holds the quota, and never before.  The task has as many goroutines
  as the statement has run.  A POST starts the goroutine exactly when it appends a file
  and the number of files thereby becomes the quota.
\<close>

theorem quota_and_single_dispatch:
  assumes "0 \<le> MaxFilesPerTask cfg" and "a < length (heap (fst (run cfg es)))"
  shows "int (length (Files (fst (heap (fst (run cfg es)) ! a)))) \<le> MaxFilesPerTask cfg
         \<and> count_list (snd (run cfg es)) (Go a) \<le> 1
         \<and> (count_list (snd (run cfg es)) (Go a) = 1) =
             (0 < MaxFilesPerTask cfg
              \<and> int (length (Files (fst (heap (fst (run cfg es)) ! a)))) = MaxFilesPerTask cfg)
         \<and> length (snd (heap (fst (run cfg es)) ! a)) = count_list (snd (run cfg es)) (Go a)
         \<and> (GoCreateZipArchive \<in> set (snd (snd (handleTaskFiles_POST cfg r net task)))) =
             (length (Files (fst (handleTaskFiles_POST cfg r net task))) = Suc (length (Files task))
              \<and> int (Suc (length (Files task))) = MaxFilesPerTask cfg)"
proof -
  obtain s os where r: "run cfg es = (s, os)" by (cases "run cfg es")
  obtain t gs where cell: "heap s ! a = (t, gs)" by (cases "heap s ! a")
  from inv_run [of cfg es] r assms(2) cell
  have ci: "cell_inv cfg (count_list os (Go a)) (count_list os (Assign_ZipPath a)) (t, gs)"
    by (auto simp add: inv_def)
  from ci assms(1) have "int (length (Files t)) \<le> MaxFilesPerTask cfg
     \<and> count_list os (Go a) \<le> 1
     \<and> (count_list os (Go a) = 1) = (0 < MaxFilesPerTask cfg \<and> int (length (Files t)) = MaxFilesPerTask cfg)
     \<and> length gs = count_list os (Go a)"
    by (cases "(cfg, count_list os (Go a), count_list os (Assign_ZipPath a), (t, gs))"
        rule: cell_inv.cases) auto
  with r cell POST_dispatch_iff [of cfg r net task] show ?thesis by simp
qed

theorem quota_and_single_dispatch_witness:
  "0 \<le> MaxFilesPerTask config
   \<and> 0 < length (heap (fst (run config three_files)))
   \<and> int (length (Files (fst (heap (fst (run config three_files)) ! 0)))) = MaxFilesPerTask config
   \<and> count_list (snd (run config three_files)) (Go 0) = 1
   \<and> 0 < length (heap (fst (run config (take 3 three_files))))
   \<and> length (Files (fst (heap (fst (run config (take 3 three_files))) ! 0))) = 2
   \<and> count_list (snd (run config (take 3 three_files))) (Go 0) = 0"
proof -
  have h: "0 \<le> MaxFilesPerTask config" by code_simp
  have a: "0 < length (heap (fst (run config three_files)))" by code_simp
  have b: "int (length (Files (fst (heap (fst (run config three_files)) ! 0)))) = MaxFilesPerTask config"
    by code_simp
  have c: "0 < length (heap (fst (run config (take 3 three_files))))" by code_simp
  have d: "length (Files (fst (heap (fst (run config (take 3 three_files))) ! 0))) = 2" by code_simp
  have e: "0 < MaxFilesPerTask config" by code_simp
  have f: "int 2 \<noteq> MaxFilesPerTask config" by code_simp
  from quota_and_single_dispatch [OF h a] quota_and_single_dispatch [OF h c] h a b c d e f
  show ?thesis by (simp (no_asm_use)) presburger
qed

text \<open>
  Claim C2.  In every execution and for every task, \<open>ZipPath\<close> is not empty if and only
  if the status is completed; the number of assignments to \<open>ZipPath\<close> is one when the
  status is completed and zero otherwise, so the path is set once, in the step that sets
  the status to completed, and is empty in the states created, processing and failed.
  The status is always one of these four.
\<close>

theorem archive_path_iff_completed:
  assumes "a < length (heap (fst (run cfg es)))"
  shows "(ZipPath (fst (heap (fst (run cfg es)) ! a)) \<noteq> [])
           = (Status (fst (heap (fst (run cfg es)) ! a)) = ''completed'')
         \<and> count_list (snd (run cfg es)) (Assign_ZipPath a) =
             (if Status (fst (heap (fst (run cfg es)) ! a)) = ''completed'' then 1 else 0)
         \<and> Status (fst (heap (fst (run cfg es)) ! a))
             \<in> {''created'', ''processing'', ''completed'', ''failed''}"
proof -
  obtain s os where r: "run cfg es = (s, os)" by (cases "run cfg es")
  obtain t gs where cell: "heap s ! a = (t, gs)" by (cases "heap s ! a")
  from inv_run [of cfg es] r assms cell
  have ci: "cell_inv cfg (count_list os (Go a)) (count_list os (Assign_ZipPath a)) (t, gs)"
    by (auto simp add: inv_def)
  have "(ZipPath t \<noteq> []) = (Status t = ''completed'')
     \<and> count_list os (Assign_ZipPath a) = (if Status t = ''completed'' then 1 else 0)
     \<and> Status t \<in> {''created'', ''processing'', ''completed'', ''failed''}"
  proof (cases "(cfg, count_list os (Go a), count_list os (Assign_ZipPath a), (t, gs))"
      rule: cell_inv.cases)
    case (1 cfg' go zp task)
    with ci show ?thesis by auto
  next
    case (2 cfg' go zp task pc)
    with ci show ?thesis by (cases pc) auto
  next
    case (3 cfg' go zp task pc pc' gs')
    with ci show ?thesis by simp
  qed
  with r cell show ?thesis by simp
qed

theorem archive_path_iff_completed_witness:
  "0 < length (heap (fst (run config (three_files @ build_events))))
   \<and> Status (fst (heap (fst (run config (three_files @ build_events))) ! 0)) = ''completed''
   \<and> ZipPath (fst (heap (fst (run config (three_files @ build_events))) ! 0)) = ''temp_archives/7.zip''
   \<and> count_list (snd (run config (three_files @ build_events))) (Assign_ZipPath 0) = 1
   \<and> 0 < length (heap (fst (run config three_files)))
   \<and> Status (fst (heap (fst (run config three_files)) ! 0)) = ''processing''
   \<and> ZipPath (fst (heap (fst (run config three_files)) ! 0)) = []
   \<and> count_list (snd (run config three_files)) (Assign_ZipPath 0) = 0"
proof -
  have a: "0 < length (heap (fst (run config (three_files @ build_events))))" by code_simp
  have b: "Status (fst (heap (fst (run config (three_files @ build_events))) ! 0)) = ''completed''"
    by code_simp
  have c: "ZipPath (fst (heap (fst (run config (three_files @ build_events))) ! 0)) = ''temp_archives/7.zip''"
    by code_simp
  have d: "0 < length (heap (fst (run config three_files)))" by code_simp
  have e: "Status (fst (heap (fst (run config three_files)) ! 0)) = ''processing''" by code_simp
  from archive_path_iff_completed [OF a] archive_path_iff_completed [OF d] a b c d e
  show ?thesis by simp
qed

text \<open>
  Claim C3, at the input where the code departs from it.  For the URL
  \<open>http://h/a.exe?filename=b.pdf\<close> the function \<open>parseURL\<close> gives the value \<open>b.pdf\<close> of
  the query parameter, so the extension is allowed; the file is nevertheless stored under
  the name \<open>a.exe?filename=b.pdf\<close>, which \<open>downloadFile\<close> takes from the last element of
  the raw URL, and the archive entry gets this name.
\<close>

theorem stored_filename_is_base_of_raw_url:
  "parseURL ''http://h/a.exe?filename=b.pdf'' = Inr ''b.pdf''
   \<and> hasAllowedExtension ''http://h/a.exe?filename=b.pdf''
   \<and> Files (fst (handleTaskFiles_POST config (post_url ''http://h/a.exe?filename=b.pdf'') fetched
        (example_task []))) =
       [\<lparr>URL = ''http://h/a.exe?filename=b.pdf'', Filename = ''a.exe?filename=b.pdf'', Data = ''data''\<rparr>]
   \<and> snd (createZipArchive config None (\<lambda>i. EntryWritten)
        (fst (handleTaskFiles_POST config (post_url ''http://h/a.exe?filename=b.pdf'') fetched
           (example_task [])))) = Some [(''a.exe?filename=b.pdf'', Some ''data'')]"
  by code_simp

text \<open>
  Claim C4 as stated fails: after one task has been created there is one send to
  \<open>taskSem\<close> and no receive, so the releases are fewer than the acquisitions.
\<close>

theorem releases_not_below_acquisitions_counterexample:
  "\<not> count_list (snd (run config [E_handleTasks create_request 7 8])) SemSend
       \<le> count_list (snd (run config [E_handleTasks create_request 7 8])) SemRecv"
  by code_simp

text \<open>
  Claim C4, amended.  In every execution each send to \<open>taskSem\<close> belongs to one task
  that was created, and each receive to one goroutine of \<open>createZipArchive\<close> that has
  returned: the sends are as many as the tasks, the receives as many as the tasks whose
  build has ended, and a task has at most one build.  So every build that has ended has
  released its slot, on the path where \<open>os.Create\<close> fails as on the others, and the
  releases are behind the acquisitions by exactly the tasks whose build has not ended:
  the sends are the receives plus the elements in the channel.  The slots acquired and
  not released never exceed \<open>MaxActiveTasks\<close>.  A goroutine at its deferred receive
  always finds an element in the channel, and every build that has started ends: whatever
  \<open>os.Create\<close> and the entries do, after the steps it has left the goroutine has
  returned, and then its release is counted.
\<close>

theorem semaphore_balance:
  assumes "0 \<le> MaxActiveTasks cfg"
  shows "count_list (snd (run cfg es)) SemSend = length (heap (fst (run cfg es)))
         \<and> count_list (snd (run cfg es)) SemRecv =
             length (filter (\<lambda>c. snd c = [B_Done]) (heap (fst (run cfg es))))
         \<and> (\<forall>a < length (heap (fst (run cfg es))). length (snd (heap (fst (run cfg es)) ! a)) \<le> 1)
         \<and> count_list (snd (run cfg es)) SemSend =
             count_list (snd (run cfg es)) SemRecv + taskSem (fst (run cfg es))
         \<and> count_list (snd (run cfg es)) SemRecv \<le> count_list (snd (run cfg es)) SemSend
         \<and> int (taskSem (fst (run cfg es))) \<le> MaxActiveTasks cfg
         \<and> (\<forall>a < length (heap (fst (run cfg es))).
               B_Release \<in> set (snd (heap (fst (run cfg es)) ! a)) \<longrightarrow> taskSem (fst (run cfg es)) \<noteq> 0)
         \<and> (\<forall>a < length (heap (fst (run cfg es))).
               snd (heap (fst (run cfg es)) ! a) \<noteq> [] \<and> list_all (is_step_of a) evs
               \<and> steps_left (fst (heap (fst (run cfg es)) ! a)) (hd (snd (heap (fst (run cfg es)) ! a)))
                    \<le> length evs \<longrightarrow>
               snd (heap (fst (run cfg (es @ evs))) ! a) = [B_Done])"
proof -
  obtain s os where r: "run cfg es = (s, os)" by (cases "run cfg es")
  from inv_run [of cfg es] r have i: "inv cfg (s, os)" by simp
  have one: "\<forall>a < length (heap s). length (snd (heap s ! a)) \<le> 1"
    using inv_one_goroutine [OF i] by blast
  have "\<forall>c \<in> set (heap s). length (snd c) \<le> 1"
  proof
    fix c
    assume "c \<in> set (heap s)"
    then obtain b where "b < length (heap s)" "c = heap s ! b"
      by (auto simp add: in_set_conv_nth)
    with one show "length (snd c) \<le> 1" by simp
  qed
  then have dc: "done_count (heap s) = length (filter (\<lambda>c. snd c = [B_Done]) (heap s))"
    by (rule done_count_filter)
  from i have send: "count_list os SemSend = length (heap s)"
    and recv: "count_list os SemRecv = done_count (heap s)"
    and bal: "count_list os SemSend = count_list os SemRecv + taskSem s"
    by (simp_all add: inv_def)
  have bound: "int (taskSem (fst (run cfg es))) \<le> MaxActiveTasks cfg"
    unfolding run_def using assms by (intro taskSem_exec) (simp add: init_def)
  have free: "\<forall>a < length (heap s). B_Release \<in> set (snd (heap s ! a)) \<longrightarrow> taskSem s \<noteq> 0"
    using release_not_blocked [OF i] by blast
  have fin: "snd (heap (fst (run cfg (es @ evs))) ! a) = [B_Done]"
    if a: "a < length (heap s)" and ne: "snd (heap s ! a) \<noteq> []"
      and steps: "list_all (is_step_of a) evs"
      and le: "steps_left (fst (heap s ! a)) (hd (snd (heap s ! a))) \<le> length evs" for a
  proof -
    obtain task gs where cell: "heap s ! a = (task, gs)" by (cases "heap s ! a")
    from one a cell ne obtain pc where gs: "gs = [pc]"
      by (cases gs) (auto simp add: Suc_le_eq dest!: spec [of _ a])
    from goroutine_finishes [OF i a, of task pc evs] cell gs steps le
    show ?thesis by (simp add: run_append r)
  qed
  from send recv dc one bal bound free fin r show ?thesis by simp
qed

theorem semaphore_balance_witness:
  "0 \<le> MaxActiveTasks config
   \<and> count_list (snd (run config (three_files @ take 5 build_events))) SemSend = 1
   \<and> count_list (snd (run config (three_files @ take 5 build_events))) SemRecv = 0
   \<and> taskSem (fst (run config (three_files @ take 5 build_events))) = 1
   \<and> 0 < length (heap (fst (run config (three_files @ take 5 build_events))))
   \<and> B_Release \<in> set (snd (heap (fst (run config (three_files @ take 5 build_events))) ! 0))
   \<and> int (taskSem (fst (run config (three_files @ take 5 build_events)))) \<le> MaxActiveTasks config
   \<and> 0 < length (heap (fst (run config three_files)))
   \<and> snd (heap (fst (run config three_files)) ! 0) \<noteq> []
   \<and> list_all (is_step_of 0) build_events
   \<and> steps_left (fst (heap (fst (run config three_files)) ! 0))
        (hd (snd (heap (fst (run config three_files)) ! 0))) \<le> length build_events
   \<and> snd (heap (fst (run config (three_files @ build_events))) ! 0) = [B_Done]
   \<and> count_list (snd (run config (three_files @ build_events))) SemSend = 1
   \<and> count_list (snd (run config (three_files @ build_events))) SemRecv = 1
   \<and> length (filter (\<lambda>c. snd c = [B_Done]) (heap (fst (run config (three_files @ build_events))))) = 1
   \<and> taskSem (fst (run config (three_files @ build_events))) = 0"
proof -
  have h: "0 \<le> MaxActiveTasks config" by code_simp
  have a: "count_list (snd (run config (three_files @ take 5 build_events))) SemSend = 1" by code_simp
  have b: "count_list (snd (run config (three_files @ take 5 build_events))) SemRecv = 0" by code_simp
  have c: "0 < length (heap (fst (run config (three_files @ take 5 build_events))))" by code_simp
  have d: "B_Release \<in> set (snd (heap (fst (run config (three_files @ take 5 build_events))) ! 0))"
    by code_simp
  have e: "count_list (snd (run config (three_files @ build_events))) SemSend = 1" by code_simp
  have f: "count_list (snd (run config (three_files @ build_events))) SemRecv = 1" by code_simp
  have g: "0 < length (heap (fst (run config three_files)))" by code_simp
  have k: "snd (heap (fst (run config three_files)) ! 0) \<noteq> []" by code_simp
  have l: "list_all (is_step_of 0) build_events" by code_simp
  have m: "steps_left (fst (heap (fst (run config three_files)) ! 0))
        (hd (snd (heap (fst (run config three_files)) ! 0))) \<le> length build_events" by code_simp
  note T1 = semaphore_balance [OF h, of "three_files @ take 5 build_events" "[]"]
  note T2 = semaphore_balance [OF h, of "three_files @ build_events" "[]"]
  note T3 = semaphore_balance [OF h, of three_files build_events]
  from T3 g k l m have fin: "snd (heap (fst (run config (three_files @ build_events))) ! 0) = [B_Done]"
    by blast
  from T1 a b have s1: "taskSem (fst (run config (three_files @ take 5 build_events))) = 1" by simp
  from T1 have s2: "int (taskSem (fst (run config (three_files @ take 5 build_events)))) \<le> MaxActiveTasks config"
    by blast
  from T2 e f have s3: "taskSem (fst (run config (three_files @ build_events))) = 0" by simp
  from T2 f have s4: "length (filter (\<lambda>c. snd c = [B_Done]) (heap (fst (run config (three_files @ build_events))))) = 1"
    by simp
  from h a b c d e f g k l m fin s1 s2 s3 s4 show ?thesis by blast
qed

text \<open>
  Claim C5.  When the quota is not reached, the body decodes to a valid URL with an
  allowed extension, and \<open>downloadFile\<close> returns an error, the POST appends exactly one
  diagnostic to the errors of the task and leaves the files and the status as they
  were; the fetch was made.  The task can take the file afterwards: the same request,
  once the download succeeds, appends the file.
\<close>

theorem fetch_failure_is_recorded_only:
  assumes "int (length (Files task)) < MaxFilesPerTask cfg"
    and "snd (decodeJSONBody r) = Inr u"
    and "isValidURL u" and "hasAllowedExtension u"
    and "downloadFile u net = Inl err"
  shows "Errors (fst (handleTaskFiles_POST cfg r net task)) =
           Errors task @ [download_diagnostic u err]
         \<and> Files (fst (handleTaskFiles_POST cfg r net task)) = Files task
         \<and> Status (fst (handleTaskFiles_POST cfg r net task)) = Status task
         \<and> fst (handleTaskFiles_POST cfg r net task) =
             task\<lparr>Errors := Errors task @ [download_diagnostic u err]\<rparr>
         \<and> snd (snd (handleTaskFiles_POST cfg r net task)) =
             [MutexLock, ReadBody, HttpGet u, MutexUnlock]
         \<and> (\<forall>net2 data filename. downloadFile u net2 = Inr (data, filename) \<longrightarrow>
               Files (fst (handleTaskFiles_POST cfg r net2 (fst (handleTaskFiles_POST cfg r net task)))) =
                 Files task @ [\<lparr>URL = u, Filename = filename, Data = data\<rparr>])"
proof -
  let ?t = "task\<lparr>Errors := Errors task @ [download_diagnostic u err]\<rparr>"
  have below: "int (length (Files ?t)) < MaxFilesPerTask cfg"
    using assms(1) by simp
  have again: "Files (fst (handleTaskFiles_POST cfg r net2 ?t)) =
      Files task @ [\<lparr>URL = u, Filename = filename, Data = data\<rparr>]"
    if "downloadFile u net2 = Inr (data, filename)" for net2 data filename
    using POST_downloaded [OF below assms(2,3,4) that] by (simp add: Let_def)
  from POST_download_failed [OF assms] again show ?thesis by simp
qed

theorem fetch_failure_is_recorded_only_witness:
  "int (length (Files (example_task [example_file ''a.pdf'']))) < MaxFilesPerTask config
   \<and> snd (decodeJSONBody (post_url ''http://h/b.jpg'')) = Inr ''http://h/b.jpg''
   \<and> isValidURL ''http://h/b.jpg'' \<and> hasAllowedExtension ''http://h/b.jpg''
   \<and> downloadFile ''http://h/b.jpg'' (GetResponse 404 (Inr [])) = Inl ''HTTP status 404''
   \<and> Errors (fst (handleTaskFiles_POST config (post_url ''http://h/b.jpg'') (GetResponse 404 (Inr []))
         (example_task [example_file ''a.pdf'']))) =
       [''Failed to download http://h/b.jpg: HTTP status 404'']
   \<and> Files (fst (handleTaskFiles_POST config (post_url ''http://h/b.jpg'') (GetResponse 404 (Inr []))
         (example_task [example_file ''a.pdf'']))) = [example_file ''a.pdf'']
   \<and> Status (fst (handleTaskFiles_POST config (post_url ''http://h/b.jpg'') (GetResponse 404 (Inr []))
         (example_task [example_file ''a.pdf'']))) = ''created''
   \<and> downloadFile ''http://h/b.jpg'' fetched = Inr (''data'', ''b.jpg'')
   \<and> Files (fst (handleTaskFiles_POST config (post_url ''http://h/b.jpg'') fetched
         (fst (handleTaskFiles_POST config (post_url ''http://h/b.jpg'') (GetResponse 404 (Inr []))
            (example_task [example_file ''a.pdf'']))))) =
       [example_file ''a.pdf'', example_file ''b.jpg'']"
proof -
  have h1: "int (length (Files (example_task [example_file ''a.pdf'']))) < MaxFilesPerTask config"
    by code_simp
  have h2: "snd (decodeJSONBody (post_url ''http://h/b.jpg'')) = Inr ''http://h/b.jpg''"
    by code_simp
  have h3: "isValidURL ''http://h/b.jpg''" by code_simp
  have h4: "hasAllowedExtension ''http://h/b.jpg''" by code_simp
  have h5: "downloadFile ''http://h/b.jpg'' (GetResponse 404 (Inr [])) = Inl ''HTTP status 404''"
    by code_simp
  have h6: "downloadFile ''http://h/b.jpg'' fetched = Inr (''data'', ''b.jpg'')" by code_simp
  have e1: "Errors (example_task [example_file ''a.pdf'']) @
              [download_diagnostic ''http://h/b.jpg'' ''HTTP status 404''] =
            [''Failed to download http://h/b.jpg: HTTP status 404'']"
    by code_simp
  have e2: "Files (example_task [example_file ''a.pdf'']) = [example_file ''a.pdf'']"
    by code_simp
  have e3: "Status (example_task [example_file ''a.pdf'']) = ''created''" by code_simp
  have e4: "\<lparr>URL = ''http://h/b.jpg'', Filename = ''b.jpg'', Data = ''data''\<rparr> = example_file ''b.jpg''"
    by code_simp
  from fetch_failure_is_recorded_only [OF h1 h2 h3 h4 h5] h6
  have "Files (fst (handleTaskFiles_POST config (post_url ''http://h/b.jpg'') fetched
         (fst (handleTaskFiles_POST config (post_url ''http://h/b.jpg'') (GetResponse 404 (Inr []))
            (example_task [example_file ''a.pdf'']))))) =
       Files (example_task [example_file ''a.pdf'']) @
         [\<lparr>URL = ''http://h/b.jpg'', Filename = ''b.jpg'', Data = ''data''\<rparr>]"
    by blast
  with fetch_failure_is_recorded_only [OF h1 h2 h3 h4 h5] h1 h2 h3 h4 h5 h6 e1 e2 e3 e4
  show ?thesis by simp
qed




text \<open>
  Claim C7 as stated fails in both directions: the well-formed
  absolute URL \<open>ftp://example.com/a.pdf\<close> is refused as an invalid URL, and the reference
  \<open>http://h/%zz.pdf\<close>, which \<open>url.Parse\<close> rejects, is not refused as an invalid URL (it is
  refused for its file type).
\<close>

theorem invalid_reference_counterexample:
  "well_formed_absolute_URL ''ftp://example.com/a.pdf''
   \<and> fst (snd (handleTaskFiles_POST config (post_url ''ftp://example.com/a.pdf'') fetched
        (example_task []))) = http_Error invalid_url_body StatusBadRequest
   \<and> \<not> well_formed_absolute_URL ''http://h/%zz.pdf''
   \<and> fst (snd (handleTaskFiles_POST config (post_url ''http://h/%zz.pdf'') fetched
        (example_task []))) \<noteq> http_Error invalid_url_body StatusBadRequest"
  by code_simp

text \<open>
  Claim C7, amended.  When the quota is not reached and the body decodes, the POST is
  refused as an invalid URL exactly when the reference begins with neither \<open>http://\<close>
  nor \<open>https://\<close>, and the task is then unchanged.  Every reference that is not a
  well-formed absolute URL is refused, with the task unchanged and nothing fetched: as an
  invalid URL when it lacks the prefix, and for its file type when it has the prefix,
  since \<open>url.Parse\<close> rejects it.
\<close>

theorem invalid_reference_is_a_prefix_test:
  assumes "int (length (Files task)) < MaxFilesPerTask cfg"
    and "snd (decodeJSONBody r) = Inr u"
  shows "(fst (snd (handleTaskFiles_POST cfg r net task)) = http_Error invalid_url_body StatusBadRequest)
           = (\<not> (strings_HasPrefix u ''http://'' \<or> strings_HasPrefix u ''https://''))
         \<and> (\<not> (strings_HasPrefix u ''http://'' \<or> strings_HasPrefix u ''https://'') \<longrightarrow>
              fst (handleTaskFiles_POST cfg r net task) = task)
         \<and> (\<not> well_formed_absolute_URL u \<longrightarrow>
              handleTaskFiles_POST cfg r net task =
                (task,
                 http_Error
                   (if strings_HasPrefix u ''http://'' \<or> strings_HasPrefix u ''https://''
                    then not_allowed_body else invalid_url_body) StatusBadRequest,
                 [MutexLock, ReadBody, MutexUnlock]))"
proof (cases "isValidURL u")
  case False
  from POST_invalid_url [OF assms False] False show ?thesis
    by (simp add: isValidURL_def)
next
  case True
  have "fst (snd (handleTaskFiles_POST cfg r net task)) \<noteq> http_Error invalid_url_body StatusBadRequest"
  proof (cases "hasAllowedExtension u")
    case False
    from POST_not_allowed [OF assms True False] show ?thesis
      by (simp add: bodies_distinct [symmetric])
  next
    case allowed: True
    show ?thesis
    proof (cases "downloadFile u net")
      case (Inl err)
      from POST_download_failed [OF assms True allowed Inl] show ?thesis by simp
    next
      case (Inr df)
      obtain data filename where "df = (data, filename)" by (cases df)
      with Inr POST_downloaded [OF assms True allowed, of net data filename] show ?thesis
        by (simp add: Let_def)
    qed
  qed
  moreover have "handleTaskFiles_POST cfg r net task =
      (task, http_Error not_allowed_body StatusBadRequest, [MutexLock, ReadBody, MutexUnlock])"
    if "\<not> well_formed_absolute_URL u"
    using POST_not_allowed [OF assms True ill_formed_not_allowed [OF True that]] .
  ultimately show ?thesis using True by (simp add: isValidURL_def)
qed

theorem invalid_reference_is_a_prefix_test_witness:
  "int (length (Files (example_task []))) < MaxFilesPerTask config
   \<and> snd (decodeJSONBody (post_url ''HTTP://h/a.pdf'')) = Inr ''HTTP://h/a.pdf''
   \<and> \<not> (strings_HasPrefix ''HTTP://h/a.pdf'' ''http://'' \<or> strings_HasPrefix ''HTTP://h/a.pdf'' ''https://'')
   \<and> fst (snd (handleTaskFiles_POST config (post_url ''HTTP://h/a.pdf'') fetched (example_task []))) =
       http_Error invalid_url_body StatusBadRequest
   \<and> fst (handleTaskFiles_POST config (post_url ''HTTP://h/a.pdf'') fetched (example_task [])) =
       example_task []
   \<and> snd (decodeJSONBody (post_url ''http://h/%zz.pdf'')) = Inr ''http://h/%zz.pdf''
   \<and> \<not> well_formed_absolute_URL ''http://h/%zz.pdf''
   \<and> strings_HasPrefix ''http://h/%zz.pdf'' ''http://''
   \<and> handleTaskFiles_POST config (post_url ''http://h/%zz.pdf'') fetched (example_task []) =
       (example_task [], http_Error not_allowed_body StatusBadRequest,
        [MutexLock, ReadBody, MutexUnlock])
   \<and> snd (decodeJSONBody (post_url ''h/a.pdf'')) = Inr ''h/a.pdf''
   \<and> \<not> well_formed_absolute_URL ''h/a.pdf''
   \<and> handleTaskFiles_POST config (post_url ''h/a.pdf'') fetched (example_task []) =
       (example_task [], http_Error invalid_url_body StatusBadRequest,
        [MutexLock, ReadBody, MutexUnlock])"
proof -
  have h1: "int (length (Files (example_task []))) < MaxFilesPerTask config" by code_simp
  have h2: "snd (decodeJSONBody (post_url ''HTTP://h/a.pdf'')) = Inr ''HTTP://h/a.pdf''"
    by code_simp
  have h3: "\<not> (strings_HasPrefix ''HTTP://h/a.pdf'' ''http://'' \<or> strings_HasPrefix ''HTTP://h/a.pdf'' ''https://'')"
    by code_simp
  have k2: "snd (decodeJSONBody (post_url ''http://h/%zz.pdf'')) = Inr ''http://h/%zz.pdf''"
    by code_simp
  have k3: "\<not> well_formed_absolute_URL ''http://h/%zz.pdf''" by code_simp
  have k4: "strings_HasPrefix ''http://h/%zz.pdf'' ''http://''" by code_simp
  have l2: "snd (decodeJSONBody (post_url ''h/a.pdf'')) = Inr ''h/a.pdf''" by code_simp
  have l3: "\<not> well_formed_absolute_URL ''h/a.pdf''" by code_simp
  have l4: "\<not> (strings_HasPrefix ''h/a.pdf'' ''http://'' \<or> strings_HasPrefix ''h/a.pdf'' ''https://'')"
    by code_simp
  from invalid_reference_is_a_prefix_test [OF h1 h2, of fetched] h3
  have A: "fst (snd (handleTaskFiles_POST config (post_url ''HTTP://h/a.pdf'') fetched (example_task []))) =
       http_Error invalid_url_body StatusBadRequest"
    "fst (handleTaskFiles_POST config (post_url ''HTTP://h/a.pdf'') fetched (example_task [])) =
       example_task []"
    by blast+
  from invalid_reference_is_a_prefix_test [OF h1 k2, of fetched] k3 k4
  have B: "handleTaskFiles_POST config (post_url ''http://h/%zz.pdf'') fetched (example_task []) =
       (example_task [], http_Error not_allowed_body StatusBadRequest,
        [MutexLock, ReadBody, MutexUnlock])"
    by simp
  from invalid_reference_is_a_prefix_test [OF h1 l2, of fetched] l3 l4
  have C: "handleTaskFiles_POST config (post_url ''h/a.pdf'') fetched (example_task []) =
       (example_task [], http_Error invalid_url_body StatusBadRequest,
        [MutexLock, ReadBody, MutexUnlock])"
    by simp
  from h1 h2 h3 k2 k3 k4 l2 l3 A B C show ?thesis by blast
qed

text \<open>
  Claim C8 as stated fails: in a POST that fetches, the lock is taken before
  \<open>http.Get\<close> and released after it, so the fetch is made while the lock is held.
\<close>

theorem fetch_under_lock_counterexample:
  "snd (snd (handleTaskFiles_POST config (post_url ''http://h/a.pdf'') fetched (example_task []))) =
     [MutexLock, ReadBody, HttpGet ''http://h/a.pdf'', MutexUnlock]
   \<and> \<not> fetches_unlocked False
        (snd (snd (handleTaskFiles_POST config (post_url ''http://h/a.pdf'') fetched (example_task []))))"
  by code_simp

text \<open>
  Claim C8, amended.  In every POST the lock of the task is taken once, as the first
  effect, and released once, as the last effect; every \<open>http.Get\<close> of the call is made
  while the lock is held.
\<close>

theorem lock_held_for_the_whole_call:
  "fetches_locked False (snd (snd (handleTaskFiles_POST cfg r net task)))
   \<and> count_list (snd (snd (handleTaskFiles_POST cfg r net task))) MutexLock = 1
   \<and> count_list (snd (snd (handleTaskFiles_POST cfg r net task))) MutexUnlock = 1
   \<and> hd (snd (snd (handleTaskFiles_POST cfg r net task))) = MutexLock
   \<and> last (snd (snd (handleTaskFiles_POST cfg r net task))) = MutexUnlock"
proof -
  obtain effs0 res where dec: "decodeJSONBody r = (effs0, res)" by (cases "decodeJSONBody r")
  with decodeJSONBody_effs [of r] have "effs0 = [] \<or> effs0 = [ReadBody]" by simp
  then show ?thesis
    by (auto simp add: handleTaskFiles_POST_def dec Let_def split: sum.splits prod.splits)
qed

text \<open>
  Claim C9 as stated fails: a task that holds the quota answers a POST whose content type
  is \<open>application/json; charset=utf-8\<close> with the error of the reached quota, not with the
  error of the invalid body.
\<close>

theorem wrong_content_type_counterexample:
  "Content_Type (post_request ''application/json; charset=utf-8'' (Unmarshalled ''http://h/d.pdf''))
     \<noteq> ''application/json''
   \<and> fst (snd (handleTaskFiles_POST config
        (post_request ''application/json; charset=utf-8'' (Unmarshalled ''http://h/d.pdf''))
        fetched full_task)) \<noteq> http_Error invalid_body_body StatusBadRequest"
  by code_simp

text \<open>
  Claim C9, amended.  A POST whose content type is not exactly \<open>application/json\<close>
  leaves the task unchanged and does not read the body; it is refused as an invalid
  request body when the task holds fewer files than the quota, and with the error of the
  reached quota otherwise.
\<close>

theorem wrong_content_type_rejected:
  assumes "Content_Type r \<noteq> ''application/json''"
  shows "fst (handleTaskFiles_POST cfg r net task) = task
         \<and> ReadBody \<notin> set (snd (snd (handleTaskFiles_POST cfg r net task)))
         \<and> (int (length (Files task)) < MaxFilesPerTask cfg \<longrightarrow>
              fst (snd (handleTaskFiles_POST cfg r net task)) =
                http_Error invalid_body_body StatusBadRequest)
         \<and> (MaxFilesPerTask cfg \<le> int (length (Files task)) \<longrightarrow>
              fst (snd (handleTaskFiles_POST cfg r net task)) =
                http_Error quota_reached_body StatusBadRequest)"
proof -
  from assms have d: "decodeJSONBody r = ([], Inl ''content type is not application/json'')"
    by (simp add: decodeJSONBody_def)
  show ?thesis
    by (simp add: handleTaskFiles_POST_def d)
qed

theorem wrong_content_type_rejected_witness:
  "Content_Type (post_request ''application/json; charset=utf-8'' (Unmarshalled ''http://h/b.jpg''))
     \<noteq> ''application/json''
   \<and> int (length (Files (example_task [example_file ''a.pdf'']))) < MaxFilesPerTask config
   \<and> fst (handleTaskFiles_POST config
        (post_request ''application/json; charset=utf-8'' (Unmarshalled ''http://h/b.jpg''))
        fetched (example_task [example_file ''a.pdf''])) = example_task [example_file ''a.pdf'']
   \<and> fst (snd (handleTaskFiles_POST config
        (post_request ''application/json; charset=utf-8'' (Unmarshalled ''http://h/b.jpg''))
        fetched (example_task [example_file ''a.pdf'']))) =
       http_Error invalid_body_body StatusBadRequest
   \<and> MaxFilesPerTask config \<le> int (length (Files full_task))
   \<and> fst (snd (handleTaskFiles_POST config
        (post_request ''application/json; charset=utf-8'' (Unmarshalled ''http://h/b.jpg''))
        fetched full_task)) = http_Error quota_reached_body StatusBadRequest"
proof -
  have h: "Content_Type (post_request ''application/json; charset=utf-8'' (Unmarshalled ''http://h/b.jpg''))
     \<noteq> ''application/json''" by code_simp
  have b: "int (length (Files (example_task [example_file ''a.pdf'']))) < MaxFilesPerTask config"
    by code_simp
  have q: "MaxFilesPerTask config \<le> int (length (Files full_task))" by code_simp
  from wrong_content_type_rejected [OF h, of config fetched "example_task [example_file ''a.pdf'']"]
    wrong_content_type_rejected [OF h, of config fetched full_task] h b q
  show ?thesis by blast
qed

text \<open>
  Claim C10.  A task that holds at least \<open>MaxFilesPerTask\<close> files answers every POST,
  whatever its content type, body and URL, with the error of the reached quota; the task
  is unchanged and the only effects are taking and releasing the lock, so the body is
  not read.  Below the quota the checks follow in the order body, URL, extension: a
  body that does not decode gives the error of the invalid body; a decoded URL that is
  not valid gives the error of the invalid URL; a valid URL without allowed extension
  gives the error of the file type.
\<close>

theorem quota_check_comes_first:
  "(MaxFilesPerTask cfg \<le> int (length (Files t0)) \<longrightarrow>
      handleTaskFiles_POST cfg r0 net0 t0 =
        (t0, http_Error quota_reached_body StatusBadRequest, [MutexLock, MutexUnlock]))
   \<and> (int (length (Files t1)) < MaxFilesPerTask cfg \<and> snd (decodeJSONBody r1) = Inl e1 \<longrightarrow>
        fst (snd (handleTaskFiles_POST cfg r1 net1 t1)) = http_Error invalid_body_body StatusBadRequest)
   \<and> (int (length (Files t2)) < MaxFilesPerTask cfg \<and> snd (decodeJSONBody r2) = Inr u2
        \<and> \<not> isValidURL u2 \<longrightarrow>
        fst (snd (handleTaskFiles_POST cfg r2 net2 t2)) = http_Error invalid_url_body StatusBadRequest)
   \<and> (int (length (Files t3)) < MaxFilesPerTask cfg \<and> snd (decodeJSONBody r3) = Inr u3
        \<and> isValidURL u3 \<and> \<not> hasAllowedExtension u3 \<longrightarrow>
        fst (snd (handleTaskFiles_POST cfg r3 net3 t3)) = http_Error not_allowed_body StatusBadRequest)"
  by (simp add: POST_at_quota POST_bad_body POST_invalid_url POST_not_allowed)

theorem quota_check_comes_first_witness:
  "MaxFilesPerTask config \<le> int (length (Files full_task))
   \<and> handleTaskFiles_POST config (post_request ''text/plain'' (UnmarshalFailed ''bad'')) fetched full_task =
        (full_task, http_Error quota_reached_body StatusBadRequest, [MutexLock, MutexUnlock])
   \<and> handleTaskFiles_POST config (post_url ''nonsense'') fetched full_task =
        (full_task, http_Error quota_reached_body StatusBadRequest, [MutexLock, MutexUnlock])
   \<and> int (length (Files (example_task []))) < MaxFilesPerTask config
   \<and> snd (decodeJSONBody (post_request ''application/json'' (UnmarshalFailed ''bad''))) = Inl ''bad''
   \<and> fst (snd (handleTaskFiles_POST config (post_request ''application/json'' (UnmarshalFailed ''bad''))
          fetched (example_task []))) = http_Error invalid_body_body StatusBadRequest
   \<and> snd (decodeJSONBody (post_url ''nonsense.exe'')) = Inr ''nonsense.exe''
   \<and> \<not> isValidURL ''nonsense.exe''
   \<and> fst (snd (handleTaskFiles_POST config (post_url ''nonsense.exe'') fetched (example_task []))) =
        http_Error invalid_url_body StatusBadRequest
   \<and> snd (decodeJSONBody (post_url ''http://h/a.exe'')) = Inr ''http://h/a.exe''
   \<and> isValidURL ''http://h/a.exe'' \<and> \<not> hasAllowedExtension ''http://h/a.exe''
   \<and> fst (snd (handleTaskFiles_POST config (post_url ''http://h/a.exe'') fetched (example_task []))) =
        http_Error not_allowed_body StatusBadRequest"
proof -
  have a0: "MaxFilesPerTask config \<le> int (length (Files full_task))" by code_simp
  have a1: "int (length (Files (example_task []))) < MaxFilesPerTask config" by code_simp
  have b1: "snd (decodeJSONBody (post_request ''application/json'' (UnmarshalFailed ''bad''))) = Inl ''bad''"
    by code_simp
  have b2: "snd (decodeJSONBody (post_url ''nonsense.exe'')) = Inr ''nonsense.exe''" by code_simp
  have c2: "\<not> isValidURL ''nonsense.exe''" by code_simp
  have b3: "snd (decodeJSONBody (post_url ''http://h/a.exe'')) = Inr ''http://h/a.exe''" by code_simp
  have c3: "isValidURL ''http://h/a.exe''" by code_simp
  have d3: "\<not> hasAllowedExtension ''http://h/a.exe''" by code_simp
  note T = quota_check_comes_first [of config full_task _ fetched "example_task []"
      "post_request ''application/json'' (UnmarshalFailed ''bad'')" "''bad''" fetched
      "example_task []" "post_url ''nonsense.exe''" "''nonsense.exe''" fetched
      "example_task []" "post_url ''http://h/a.exe''" "''http://h/a.exe''" fetched]
  show ?thesis
    using a0 a1 b1 b2 c2 b3 c3 d3
      T [of "post_request ''text/plain'' (UnmarshalFailed ''bad'')"] T [of "post_url ''nonsense''"]
    by blast
qed

end
